theory Spec2Isabelle
  imports Complex_Main "HOL-Library.Word" "HOL-Library.Multiset" "HOL-Library.Option_ord"
    "HOL-Library.Log_Nat"
begin

unbundle bit_operations_syntax

section \<open>JavaScript values used by the odds services\<close>

text \<open>
  A JavaScript number is a rational or one of the three non-finite values. The
  arithmetic the services run (\<open>jsAdd\<close>, \<open>jsSub\<close>, \<open>jsMul\<close>, \<open>jsDiv\<close> below) is that
  of IEEE doubles: the exact result rounded to the nearest double, ties to even, with
  overflow to an infinity and gradual underflow. The two zeros are one value; no
  operation of the services divides by a zero. The odds math of \<open>src/utils/odds.ts\<close> is
  given twice: over the rationals, which is the reading of its round-trip property, and
  on doubles, as the services run it. Strings are Isabelle strings, that is the strings
  whose UTF-16 code units are below 256.
\<close>

datatype jsnum = Fin rat | PInf | NInf | NaN

fun isFinite :: "jsnum \<Rightarrow> bool" where
  "isFinite (Fin _) = True"
| "isFinite _ = False"

section \<open>Odds math (src/utils/odds.ts)\<close>

definition americanToImpliedProb :: "jsnum \<Rightarrow> jsnum" where
  "americanToImpliedProb american =
     (case american of
        Fin a \<Rightarrow>
          if a = 0 then Fin 0
          else if a > 0 then Fin (100 / (a + 100))
          else Fin (\<bar>a\<bar> / (\<bar>a\<bar> + 100))
      | _ \<Rightarrow> Fin 0)"

definition americanToDecimal :: "jsnum \<Rightarrow> jsnum" where
  "americanToDecimal american =
     (case american of
        Fin a \<Rightarrow>
          if a = 0 then Fin 0
          else if a > 0 then Fin (1 + a / 100)
          else Fin (1 + 100 / \<bar>a\<bar>)
      | _ \<Rightarrow> Fin 0)"

text \<open>
  \<^verbatim>\<open>if (!decimal || decimal <= 0) return 0; return 1 / decimal;\<close>
  The negation is true at zero and at NaN; \<open>1 / Infinity\<close> is zero.
\<close>

definition decimalToImpliedProb :: "jsnum \<Rightarrow> jsnum" where
  "decimalToImpliedProb decimal =
     (case decimal of
        Fin d \<Rightarrow> if d = 0 \<or> d \<le> 0 then Fin 0 else Fin (1 / d)
      | NaN \<Rightarrow> Fin 0
      | NInf \<Rightarrow> Fin 0
      | PInf \<Rightarrow> Fin 0)"

section \<open>Strings and built-ins of the JavaScript runtime\<close>

text \<open>
  \<open>x || d\<close> on an optional string: an absent and an empty string are both falsy.
  \<open>x ?? d\<close> only replaces an absent value.
\<close>

definition orStr :: "string option \<Rightarrow> string \<Rightarrow> string" where
  "orStr x d = (case x of None \<Rightarrow> d | Some s \<Rightarrow> if s = [] then d else s)"

definition orOpt :: "string option \<Rightarrow> string option \<Rightarrow> string option" where
  "orOpt x y = (case x of None \<Rightarrow> y | Some s \<Rightarrow> if s = [] then y else Some s)"

definition truthyStr :: "string option \<Rightarrow> bool" where
  "truthyStr x = (case x of None \<Rightarrow> False | Some s \<Rightarrow> s \<noteq> [])"

text \<open>White space of \<open>String.prototype.trim\<close> and of \<open>\s\<close>, among the 8-bit characters.\<close>

definition isSpaceChar :: "char \<Rightarrow> bool" where
  "isSpaceChar c = ((of_char c :: nat) \<in> {9, 10, 11, 12, 13, 32, 160})"

definition trim :: "string \<Rightarrow> string" where
  "trim s = rev (dropWhile isSpaceChar (rev (dropWhile isSpaceChar s)))"

text \<open>
  Case mapping on the characters below 256: the ASCII letters and the Latin-1 letters
  (\<open>U+00C0\<close> to \<open>U+00DE\<close> without the multiplication sign, \<open>U+00E0\<close> to \<open>U+00FE\<close> without
  the division sign). The capitals of the micro sign and of \<open>U+00FF\<close> are above 255 and
  the capital of the sharp s is two letters, so the upper case of a string is given as
  its list of UTF-16 code units.
\<close>

definition toLowerChar :: "char \<Rightarrow> char" where
  "toLowerChar c =
     (let n = (of_char c :: nat)
      in if (65 \<le> n \<and> n \<le> 90) \<or> (192 \<le> n \<and> n \<le> 214) \<or> (216 \<le> n \<and> n \<le> 222)
         then char_of (n + 32) else c)"

definition toUpperChar :: "char \<Rightarrow> nat list" where
  "toUpperChar c =
     (let n = (of_char c :: nat)
      in if (97 \<le> n \<and> n \<le> 122) \<or> (224 \<le> n \<and> n \<le> 246) \<or> (248 \<le> n \<and> n \<le> 254)
         then [n - 32]
         else if n = 181 then [924]
         else if n = 223 then [83, 83]
         else if n = 255 then [376]
         else [n])"

definition toLowerCase :: "string \<Rightarrow> string" where
  "toLowerCase s = map toLowerChar s"

definition toUpperCase :: "string \<Rightarrow> nat list" where
  "toUpperCase s = concat (map toUpperChar s)"

definition startsWith :: "string \<Rightarrow> string \<Rightarrow> bool" where
  "startsWith s p = (take (length p) s = p)"

text \<open>\<open>s.split(",")\<close>: the pieces between the commas, at least one piece.\<close>

fun splitComma :: "string \<Rightarrow> string list" where
  "splitComma [] = [[]]"
| "splitComma (c # cs) =
     (if c = CHR '','' then [] # splitComma cs
      else (case splitComma cs of [] \<Rightarrow> [[c]] | p # ps \<Rightarrow> (c # p) # ps))"

text \<open>\<open>xs.join(",")\<close>.\<close>

fun joinComma :: "string list \<Rightarrow> string" where
  "joinComma [] = []"
| "joinComma [x] = x"
| "joinComma (x # y # ys) = x @ '','' @ joinComma (y # ys)"

text \<open>\<open>s.split(",").map((s) => s.trim()).filter(Boolean)\<close>.\<close>

definition splitTrimmed :: "string \<Rightarrow> string list" where
  "splitTrimmed s = filter (\<lambda>p. p \<noteq> []) (map trim (splitComma s))"

text \<open>The decimal digits of a non-negative integer, as a template string prints it.\<close>

fun showNat :: "nat \<Rightarrow> string" where
  "showNat n =
     (if n < 10 then [char_of (48 + n)]
      else showNat (n div 10) @ [char_of (48 + n mod 10)])"

declare showNat.simps [simp del]

text \<open>
  Built-ins the model does not define are parameters: the conversion of a number to
  a string, \<open>parseInt\<close>, \<open>Date.parse\<close> and the clock. \<open>dateNow k\<close> is what the
  \<open>k\<close>-th reading of \<open>Date.now()\<close> returns; every function that reads the clock
  takes the number of readings made so far and returns the new number.
\<close>

record JsRuntime =
  numberToString :: "jsnum \<Rightarrow> string"
  parseInt :: "string \<Rightarrow> jsnum"
  dateParse :: "string \<Rightarrow> jsnum"
  dateNow :: "nat \<Rightarrow> int"

subsection \<open>Rounding to a double\<close>

text \<open>The nearest integer, the even one of two that are equally near.\<close>

definition roundHalfEven :: "rat \<Rightarrow> int" where
  "roundHalfEven r =
     (let f = \<lfloor>r\<rfloor>; d = r - of_int f
      in if d < 1 / 2 then f else if 1 / 2 < d then f + 1 else if even f then f else f + 1)"

text \<open>The binary exponent of a positive rational: \<open>2^e \<le> a < 2^(e+1)\<close>.\<close>

definition exponentOf :: "rat \<Rightarrow> int" where
  "exponentOf a = (if 1 \<le> a then bitlen \<lfloor>a\<rfloor> - 1 else - bitlen (\<lceil>1 / a\<rceil> - 1))"

definition pow2 :: "int \<Rightarrow> rat" where
  "pow2 e = 2 powi e"

text \<open>
  Binary64: 53 significant bits, the exponent of a normal number from -1022 to 1023,
  below that the subnormal numbers with the unit \<open>2^-1074\<close>. A result of magnitude
  \<open>2^1024\<close> or more after rounding is an infinity.
\<close>

definition roundDouble :: "rat \<Rightarrow> jsnum" where
  "roundDouble q =
     (if q = 0 then Fin 0
      else
        (let a = \<bar>q\<bar>;
             e = max (exponentOf a) (- 1022);
             ulp = pow2 (e - 52);
             r = of_int (roundHalfEven (a / ulp)) * ulp
         in if pow2 1024 \<le> r then (if 0 < q then PInf else NInf)
            else Fin (if 0 < q then r else - r)))"

text \<open>
  The finite doubles: an integer of magnitude below \<open>2^53\<close> times a power of two that is
  at least \<open>2^-1074\<close>, of magnitude below \<open>2^1024\<close>.
\<close>

definition representable :: "rat \<Rightarrow> bool" where
  "representable r \<longleftrightarrow>
     (\<exists>m u. r = of_int m * pow2 u \<and> \<bar>m\<bar> < 2 ^ 53 \<and> - 1074 \<le> u) \<and> \<bar>r\<bar> < pow2 1024"

fun jsNeg :: "jsnum \<Rightarrow> jsnum" where
  "jsNeg (Fin r) = Fin (- r)"
| "jsNeg PInf = NInf"
| "jsNeg NInf = PInf"
| "jsNeg NaN = NaN"

text \<open>A double or an infinity.\<close>

fun jsDouble :: "jsnum \<Rightarrow> bool" where
  "jsDouble (Fin r) = representable r"
| "jsDouble NaN = False"
| "jsDouble _ = True"

subsection \<open>Number operations\<close>

fun jsAdd :: "jsnum \<Rightarrow> jsnum \<Rightarrow> jsnum" where
  "jsAdd (Fin a) (Fin b) = roundDouble (a + b)"
| "jsAdd NaN _ = NaN"
| "jsAdd _ NaN = NaN"
| "jsAdd PInf NInf = NaN"
| "jsAdd NInf PInf = NaN"
| "jsAdd PInf _ = PInf"
| "jsAdd NInf _ = NInf"
| "jsAdd _ PInf = PInf"
| "jsAdd _ NInf = NInf"

fun jsSub :: "jsnum \<Rightarrow> jsnum \<Rightarrow> jsnum" where
  "jsSub (Fin a) (Fin b) = roundDouble (a - b)"
| "jsSub NaN _ = NaN"
| "jsSub _ NaN = NaN"
| "jsSub PInf PInf = NaN"
| "jsSub NInf NInf = NaN"
| "jsSub PInf _ = PInf"
| "jsSub NInf _ = NInf"
| "jsSub _ PInf = NInf"
| "jsSub _ NInf = PInf"

text \<open>An infinity times zero and an infinity over an infinity are NaN.\<close>

fun jsMul :: "jsnum \<Rightarrow> jsnum \<Rightarrow> jsnum" where
  "jsMul (Fin a) (Fin b) = roundDouble (a * b)"
| "jsMul NaN _ = NaN"
| "jsMul _ NaN = NaN"
| "jsMul PInf (Fin b) = (if b = 0 then NaN else if 0 < b then PInf else NInf)"
| "jsMul NInf (Fin b) = (if b = 0 then NaN else if 0 < b then NInf else PInf)"
| "jsMul (Fin a) PInf = (if a = 0 then NaN else if 0 < a then PInf else NInf)"
| "jsMul (Fin a) NInf = (if a = 0 then NaN else if 0 < a then NInf else PInf)"
| "jsMul PInf PInf = PInf"
| "jsMul PInf NInf = NInf"
| "jsMul NInf PInf = NInf"
| "jsMul NInf NInf = PInf"

text \<open>
  Zero over zero is NaN; a non-zero number over zero is an infinity, here with the
  sign of the dividend (the zero taken as positive); a finite number over an infinity
  is zero.
\<close>

fun jsDiv :: "jsnum \<Rightarrow> jsnum \<Rightarrow> jsnum" where
  "jsDiv (Fin a) (Fin b) =
     (if b = 0 then (if a = 0 then NaN else if 0 < a then PInf else NInf)
      else roundDouble (a / b))"
| "jsDiv NaN _ = NaN"
| "jsDiv _ NaN = NaN"
| "jsDiv (Fin a) PInf = Fin 0"
| "jsDiv (Fin a) NInf = Fin 0"
| "jsDiv PInf (Fin b) = (if 0 \<le> b then PInf else NInf)"
| "jsDiv NInf (Fin b) = (if 0 \<le> b then NInf else PInf)"
| "jsDiv PInf PInf = NaN"
| "jsDiv PInf NInf = NaN"
| "jsDiv NInf PInf = NaN"
| "jsDiv NInf NInf = NaN"

text \<open>\<open>a < b\<close> on numbers: false whenever an operand is NaN.\<close>

fun jsLess :: "jsnum \<Rightarrow> jsnum \<Rightarrow> bool" where
  "jsLess (Fin a) (Fin b) = (a < b)"
| "jsLess NaN _ = False"
| "jsLess _ NaN = False"
| "jsLess _ NInf = False"
| "jsLess PInf _ = False"
| "jsLess NInf _ = True"
| "jsLess _ PInf = True"

text \<open>\<open>Math.min\<close> and \<open>Math.max\<close> of two numbers: NaN if an operand is NaN.\<close>

definition mathMin :: "jsnum \<Rightarrow> jsnum \<Rightarrow> jsnum" where
  "mathMin a b = (if a = NaN \<or> b = NaN then NaN else if jsLess b a then b else a)"

definition mathMax :: "jsnum \<Rightarrow> jsnum \<Rightarrow> jsnum" where
  "mathMax a b = (if a = NaN \<or> b = NaN then NaN else if jsLess a b then b else a)"

text \<open>
  \<open>xs.slice(0, n)\<close>: the end index is truncated towards zero, NaN counts as 0, a
  negative index counts from the end, and the result stops at the end of the list.
\<close>

definition truncRat :: "rat \<Rightarrow> int" where
  "truncRat r = (if r < 0 then \<lceil>r\<rceil> else \<lfloor>r\<rfloor>)"

definition sliceTo :: "jsnum \<Rightarrow> 'a list \<Rightarrow> 'a list" where
  "sliceTo n xs =
     (case n of
        Fin r \<Rightarrow>
          (let k = truncRat r in
           if k < 0 then take (nat (int (length xs) + k)) xs else take (nat k) xs)
      | PInf \<Rightarrow> xs
      | NInf \<Rightarrow> []
      | NaN \<Rightarrow> [])"

text \<open>
  \<open>xs.sort(cmp)\<close> as a stable insertion sort: an element moves behind another one
  only where the comparator is positive (a NaN result counts as 0). For a consistent
  comparator this is the order every stable sort produces.
\<close>

fun jsPositive :: "jsnum \<Rightarrow> bool" where
  "jsPositive (Fin r) = (r > 0)"
| "jsPositive PInf = True"
| "jsPositive _ = False"

fun insertCmp :: "('a \<Rightarrow> 'a \<Rightarrow> jsnum) \<Rightarrow> 'a \<Rightarrow> 'a list \<Rightarrow> 'a list" where
  "insertCmp cmp x [] = [x]"
| "insertCmp cmp x (y # ys) =
     (if jsPositive (cmp x y) then y # insertCmp cmp x ys else x # y # ys)"

definition jsSort :: "('a \<Rightarrow> 'a \<Rightarrow> jsnum) \<Rightarrow> 'a list \<Rightarrow> 'a list" where
  "jsSort cmp xs = foldr (insertCmp cmp) xs []"

section \<open>Odds math on doubles (src/utils/odds.ts)\<close>

text \<open>The three conversions as the services run them: every operation rounds.\<close>

definition americanToImpliedProb_fp :: "jsnum \<Rightarrow> jsnum" where
  "americanToImpliedProb_fp american =
     (case american of
        Fin a \<Rightarrow>
          if a = 0 then Fin 0
          else if a > 0 then jsDiv (Fin 100) (jsAdd (Fin a) (Fin 100))
          else jsDiv (Fin \<bar>a\<bar>) (jsAdd (Fin \<bar>a\<bar>) (Fin 100))
      | _ \<Rightarrow> Fin 0)"

definition americanToDecimal_fp :: "jsnum \<Rightarrow> jsnum" where
  "americanToDecimal_fp american =
     (case american of
        Fin a \<Rightarrow>
          if a = 0 then Fin 0
          else if a > 0 then jsAdd (Fin 1) (jsDiv (Fin a) (Fin 100))
          else jsAdd (Fin 1) (jsDiv (Fin 100) (Fin \<bar>a\<bar>))
      | _ \<Rightarrow> Fin 0)"

definition decimalToImpliedProb_fp :: "jsnum \<Rightarrow> jsnum" where
  "decimalToImpliedProb_fp decimal =
     (case decimal of
        Fin d \<Rightarrow> if d = 0 \<or> d \<le> 0 then Fin 0 else jsDiv (Fin 1) (Fin d)
      | NaN \<Rightarrow> Fin 0
      | NInf \<Rightarrow> Fin 0
      | PInf \<Rightarrow> jsDiv (Fin 1) PInf)"

section \<open>Identity deriver (src/utils/oddsIds.ts)\<close>

text \<open>
  \<open>slug\<close>: lower case, trim, every run of white space becomes one hyphen, every
  character outside \<open>[a-z0-9\-:_]\<close> is dropped.
\<close>

function collapseSpaces :: "string \<Rightarrow> string" where
  "collapseSpaces [] = []"
| "collapseSpaces (c # cs) =
     (if isSpaceChar c then CHR ''-'' # collapseSpaces (dropWhile isSpaceChar cs)
      else c # collapseSpaces cs)"
  by pat_completeness auto
termination
  by (relation "measure length") (auto simp: le_imp_less_Suc length_dropWhile_le)

definition slugChar :: "char \<Rightarrow> bool" where
  "slugChar c =
     (let n = (of_char c :: nat) in
      (97 \<le> n \<and> n \<le> 122) \<or> (48 \<le> n \<and> n \<le> 57) \<or> c = CHR ''-'' \<or> c = CHR '':'' \<or> c = CHR ''_'')"

definition slug :: "string \<Rightarrow> string" where
  "slug v = filter slugChar (collapseSpaces (trim (toLowerCase v)))"

text \<open>
  \<open>h = (h * 31 + charCode) | 0\<close> keeps \<open>h\<close> a signed 32-bit integer; \<open>Math.abs\<close> works
  on the number, so the most negative value becomes \<open>2^31\<close>.
\<close>

definition makeSportIdFromKey :: "string \<Rightarrow> int" where
  "makeSportIdFromKey sportKey =
     \<bar>sint (fold (\<lambda>c h. h * 31 + of_nat (of_char c)) sportKey (0 :: 32 word))\<bar>"

definition makeTeamId :: "int \<Rightarrow> string \<Rightarrow> string" where
  "makeTeamId sportId teamName = ''team:'' @ showNat (nat sportId) @ '':'' @ slug teamName"

definition makeSportsbookId :: "string \<Rightarrow> string" where
  "makeSportsbookId bookKey = ''book:'' @ slug bookKey"

definition makeEventId :: "string \<Rightarrow> string" where
  "makeEventId externalEventId = ''evt:'' @ slug externalEventId"

definition makeMarketId :: "string \<Rightarrow> string \<Rightarrow> string \<Rightarrow> string" where
  "makeMarketId eventId bookId marketKey =
     ''mkt:'' @ eventId @ '':'' @ bookId @ '':'' @ slug marketKey"

definition makeSelectionId :: "JsRuntime \<Rightarrow> string \<Rightarrow> string \<Rightarrow> jsnum option \<Rightarrow> string" where
  "makeSelectionId rt marketId outcomeName point =
     (let pt = (case point of Some p \<Rightarrow> '':'' @ numberToString rt p | None \<Rightarrow> [])
      in ''sel:'' @ marketId @ '':'' @ slug outcomeName @ pt)"

definition makeOddsSnapshotId :: "int \<Rightarrow> nat \<Rightarrow> int" where
  "makeOddsSnapshotId batchEpochMs index = batchEpochMs * 1000 + int index"

section \<open>Feed payload\<close>

text \<open>
  The payload of the odds provider, typed as the services read it: an absent property
  is \<open>None\<close>, a property that is not an array reads as the empty list, and the numeric
  properties (\<open>point\<close>, \<open>price\<close>, \<open>odds\<close>) are numbers where present.
\<close>

record Outcome =
  o_name :: "string option"
  o_description :: "string option"
  o_participant :: "string option"
  o_player :: "string option"
  o_point :: "jsnum option"
  o_price :: "jsnum option"
  o_odds :: "jsnum option"

record MarketObj =
  mk_key :: "string option"
  mk_outcomes :: "Outcome list"

record Bookmaker =
  bm_key :: "string option"
  bm_title :: "string option"
  bm_last_update :: "string option"
  bm_markets :: "MarketObj list"

record OddsApiEvent =
  ev_id :: "string option"
  ev_commence_time :: "string option"
  ev_home_team :: "string option"
  ev_away_team :: "string option"
  ev_bookmakers :: "Bookmaker list"

record SportInfo =
  si_key :: "string option"
  si_title :: "string option"
  si_group :: "string option"

section \<open>Errors, results and observable effects\<close>

record JsError =
  err_message :: string
  err_code :: "string option"
  err_status :: "nat option"

text \<open>The \<open>{ data, remaining, warning? }\<close> objects of the feed client and the analytics services.\<close>

record 'd Result =
  data :: 'd
  remaining :: jsnum
  warning :: "string option"

record HttpRequest =
  req_url :: string
  req_params :: "(string \<times> string) list"

record 'd HttpResponse =
  resp_data :: 'd
  resp_requests_remaining :: "string option"

text \<open>
  The process environment and the upstream provider: one function per endpoint, from
  the request \<open>axios.get\<close> sends to the response or the error it throws.
\<close>

record Env =
  ODDS_API_KEY :: "string option"
  ODDS_API_BASE_URL :: "string option"
  upstreamOdds :: "HttpRequest \<Rightarrow> JsError + (OddsApiEvent list) HttpResponse"
  upstreamSports :: "HttpRequest \<Rightarrow> JsError + (SportInfo list) HttpResponse"
  upstreamEvents :: "HttpRequest \<Rightarrow> JsError + (OddsApiEvent list) HttpResponse"
  upstreamEventOdds :: "HttpRequest \<Rightarrow> JsError + (OddsApiEvent option) HttpResponse"

section \<open>Store rows and store operations\<close>

datatype OddsFormat = AMERICAN | DECIMAL

datatype JsDate = DateOfString string | DateOfMillis int

record SportRow =
  sp_id :: int
  sp_name :: string
  sp_key :: string

record TeamRow =
  tm_id :: string
  tm_sport_id :: int
  tm_name :: string
  tm_abbreviation :: "nat list"
  tm_external_ref :: string

record SportEventRow =
  se_id :: string
  se_sport_id :: int
  se_league_code :: string
  se_home_team_id :: string
  se_away_team_id :: string
  se_starts_at :: JsDate
  se_status :: string
  se_external_ref :: string

record SportsbookRow =
  sb_id :: string
  sb_name :: string
  sb_code :: string
  sb_base_url :: string

record MarketRow =
  mr_id :: string
  mr_sport_event_id :: string
  mr_key :: string
  mr_label :: string
  mr_bookmaker_key :: string
  mr_last_update :: "string option"

record MarketSelectionRow =
  ms_id :: string
  ms_market_id :: string
  ms_label :: string
  ms_player_id :: string
  ms_line_value :: jsnum
  ms_side :: string

record OddsSnapshotRow =
  os_id :: int
  os_sportsbook_id :: string
  os_selection_id :: string
  os_odds_format :: OddsFormat
  os_odds_value :: jsnum
  os_implied_prob :: jsnum
  os_fetched_at :: int

text \<open>\<open>{ ...o, archived_at: new Date() }\<close>: the snapshot's fields and the archive time.\<close>

record OddsSnapshotArchiveRow = OddsSnapshotRow +
  archived_at :: int

text \<open>
  A collection is the list of its documents. \<open>updateOne({ id }, { $set: row }, { upsert: true })\<close>
  overwrites the first document with that id or appends the row;
  with \<open>$setOnInsert\<close> an existing document stays as it is.
\<close>

fun upsertSet :: "('r \<Rightarrow> 'k) \<Rightarrow> 'r \<Rightarrow> 'r list \<Rightarrow> 'r list" where
  "upsertSet idf r [] = [r]"
| "upsertSet idf r (x # xs) = (if idf x = idf r then r # xs else x # upsertSet idf r xs)"

definition upsertSetOnInsert :: "('r \<Rightarrow> 'k) \<Rightarrow> 'r \<Rightarrow> 'r list \<Rightarrow> 'r list" where
  "upsertSetOnInsert idf r xs = (if idf r \<in> set (map idf xs) then xs else xs @ [r])"

record Store =
  sports :: "SportRow list"
  teams :: "TeamRow list"
  sportEvents :: "SportEventRow list"
  sportsbooks :: "SportsbookRow list"
  markets :: "MarketRow list"
  marketSelections :: "MarketSelectionRow list"
  oddsSnapshots :: "OddsSnapshotRow list"
  oddsSnapshotArchive :: "OddsSnapshotArchiveRow list"

datatype StoreOp =
    SportSetOnInsert SportRow
  | TeamSetOnInsert TeamRow
  | SportEventSet SportEventRow
  | SportsbookSet SportsbookRow
  | MarketSet MarketRow
  | MarketSelectionSet MarketSelectionRow
  | OddsSnapshotSet OddsSnapshotRow

fun applyOp :: "StoreOp \<Rightarrow> Store \<Rightarrow> Store" where
  "applyOp (SportSetOnInsert r) s = s\<lparr>sports := upsertSetOnInsert sp_id r (sports s)\<rparr>"
| "applyOp (TeamSetOnInsert r) s = s\<lparr>teams := upsertSetOnInsert tm_id r (teams s)\<rparr>"
| "applyOp (SportEventSet r) s = s\<lparr>sportEvents := upsertSet se_id r (sportEvents s)\<rparr>"
| "applyOp (SportsbookSet r) s = s\<lparr>sportsbooks := upsertSet sb_id r (sportsbooks s)\<rparr>"
| "applyOp (MarketSet r) s = s\<lparr>markets := upsertSet mr_id r (markets s)\<rparr>"
| "applyOp (MarketSelectionSet r) s =
     s\<lparr>marketSelections := upsertSet ms_id r (marketSelections s)\<rparr>"
| "applyOp (OddsSnapshotSet r) s = s\<lparr>oddsSnapshots := upsertSet os_id r (oddsSnapshots s)\<rparr>"

text \<open>
  What a service does besides returning: calls of the feed client, requests to the
  provider, log lines and store writes, in the order they happen.
\<close>

datatype Effect =
    FeedCall string
  | HttpGet HttpRequest
  | LogWarn string
  | LogError string
  | Write StoreOp

fun storeOps :: "Effect list \<Rightarrow> StoreOp list" where
  "storeOps [] = []"
| "storeOps (Write w # es) = w # storeOps es"
| "storeOps (_ # es) = storeOps es"

definition runStore :: "Effect list \<Rightarrow> Store \<Rightarrow> Store" where
  "runStore es s = fold applyOp (storeOps es) s"

section \<open>Feed client (OddsApiService)\<close>

definition getApikey :: "Env \<Rightarrow> string" where
  "getApikey env = trim (orStr (ODDS_API_KEY env) [])"

definition baseUrl :: "Env \<Rightarrow> string" where
  "baseUrl env = orStr (ODDS_API_BASE_URL env) ''https://api.the-odds-api.com/v4''"

definition isPlayerPropMarket :: "string \<Rightarrow> bool" where
  "isPlayerPropMarket market = startsWith (toLowerCase market) ''player_''"

definition notConfigured :: string where
  "notConfigured = ''ODDS_API_KEY not configured''"

text \<open>\<open>parseInt(response.headers["x-requests-remaining"] || "0")\<close>.\<close>

definition remainingOf :: "JsRuntime \<Rightarrow> 'd HttpResponse \<Rightarrow> jsnum" where
  "remainingOf rt response = parseInt rt (orStr (resp_requests_remaining response) ''0'')"

record GetOddsParams =
  p_sport :: string
  p_regions :: "string list option"
  p_markets :: "string list option"
  p_oddsFormat :: "string option"

definition invalidMarketError :: JsError where
  "invalidMarketError =
     \<lparr>err_message = ''INVALID_MARKET: Player prop markets are not supported on /odds. Use /events/{eventId}/odds instead.'',
      err_code = Some ''INVALID_MARKET'', err_status = Some 422\<rparr>"

text \<open>
  \<open>getOdds\<close>: the credential check comes first; everything after it runs inside a
  \<open>try\<close> whose \<open>catch\<close> logs the error and throws it again.
\<close>

definition getOdds ::
  "JsRuntime \<Rightarrow> Env \<Rightarrow> GetOddsParams \<Rightarrow> (JsError + (OddsApiEvent list) Result) \<times> Effect list" where
  "getOdds rt env params =
     (if getApikey env = [] then
        (Inr \<lparr>data = [], remaining = Fin 0, warning = Some notConfigured\<rparr>, [FeedCall ''getOdds''])
      else
        (let sport = p_sport params;
             regions = (case p_regions params of Some r \<Rightarrow> r | None \<Rightarrow> [''us'']);
             markets = (case p_markets params of Some m \<Rightarrow> m | None \<Rightarrow> [''h2h'', ''spreads'', ''totals'']);
             oddsFormat = (case p_oddsFormat params of Some f \<Rightarrow> f | None \<Rightarrow> ''american'')
         in if list_ex isPlayerPropMarket markets then
              (Inl invalidMarketError, [FeedCall ''getOdds'', LogError ''Error fetching odds:''])
            else
              (let request = \<lparr>req_url = baseUrl env @ ''/sports/'' @ sport @ ''/odds'',
                              req_params = [(''apiKey'', getApikey env),
                                            (''regions'', joinComma regions),
                                            (''markets'', joinComma markets),
                                            (''oddsFormat'', oddsFormat)]\<rparr>
               in case upstreamOdds env request of
                    Inl e \<Rightarrow>
                      (Inl e, [FeedCall ''getOdds'', HttpGet request, LogError ''Error fetching odds:''])
                  | Inr response \<Rightarrow>
                      (Inr \<lparr>data = resp_data response, remaining = remainingOf rt response,
                            warning = None\<rparr>,
                       [FeedCall ''getOdds'', HttpGet request]))))"

definition getSports ::
  "JsRuntime \<Rightarrow> Env \<Rightarrow> (JsError + (SportInfo list) Result) \<times> Effect list" where
  "getSports rt env =
     (if getApikey env = [] then
        (Inr \<lparr>data = [], remaining = Fin 0, warning = Some notConfigured\<rparr>, [FeedCall ''getSports''])
      else
        (let request = \<lparr>req_url = baseUrl env @ ''/sports'',
                        req_params = [(''apiKey'', getApikey env)]\<rparr>
         in case upstreamSports env request of
              Inl e \<Rightarrow>
                (Inl e, [FeedCall ''getSports'', HttpGet request, LogError ''Error fetching sports:''])
            | Inr response \<Rightarrow>
                (Inr \<lparr>data = resp_data response, remaining = remainingOf rt response,
                      warning = None\<rparr>,
                 [FeedCall ''getSports'', HttpGet request])))"

text \<open>\<open>getSportByKey\<close>: the first sport with that key, or null; an error is logged and gives null.\<close>

definition getSportByKey ::
  "JsRuntime \<Rightarrow> Env \<Rightarrow> string \<Rightarrow> SportInfo option \<times> Effect list" where
  "getSportByKey rt env sportKey =
     (case getSports rt env of
        (Inr res, es) \<Rightarrow> (find (\<lambda>s. si_key s = Some sportKey) (data res), FeedCall ''getSportByKey'' # es)
      | (Inl e, es) \<Rightarrow> (None, FeedCall ''getSportByKey'' # es @ [LogError ''Error getting sport by key:'']))"

definition getEvents ::
  "JsRuntime \<Rightarrow> Env \<Rightarrow> string \<Rightarrow> (JsError + (OddsApiEvent list) Result) \<times> Effect list" where
  "getEvents rt env sport =
     (if getApikey env = [] then
        (Inr \<lparr>data = [], remaining = Fin 0, warning = Some notConfigured\<rparr>, [FeedCall ''getEvents''])
      else
        (let request = \<lparr>req_url = baseUrl env @ ''/sports/'' @ sport @ ''/events'',
                        req_params = [(''apiKey'', getApikey env)]\<rparr>
         in case upstreamEvents env request of
              Inl e \<Rightarrow>
                (Inl e, [FeedCall ''getEvents'', HttpGet request, LogError ''Error fetching events:''])
            | Inr response \<Rightarrow>
                (Inr \<lparr>data = resp_data response, remaining = remainingOf rt response,
                      warning = None\<rparr>,
                 [FeedCall ''getEvents'', HttpGet request])))"

record GetEventOddsParams =
  q_sport :: string
  q_eventId :: string
  q_regions :: "string list option"
  q_markets :: "string list option"
  q_oddsFormat :: "string option"

definition getEventOdds ::
  "JsRuntime \<Rightarrow> Env \<Rightarrow> GetEventOddsParams \<Rightarrow> (JsError + (OddsApiEvent option) Result) \<times> Effect list" where
  "getEventOdds rt env params =
     (if getApikey env = [] then
        (Inr \<lparr>data = None, remaining = Fin 0, warning = Some notConfigured\<rparr>, [FeedCall ''getEventOdds''])
      else
        (let regions = (case q_regions params of Some r \<Rightarrow> r | None \<Rightarrow> [''us'']);
             markets = (case q_markets params of Some m \<Rightarrow> m | None \<Rightarrow> [''h2h'']);
             oddsFormat = (case q_oddsFormat params of Some f \<Rightarrow> f | None \<Rightarrow> ''american'');
             request = \<lparr>req_url = baseUrl env @ ''/sports/'' @ q_sport params @ ''/events/''
                                    @ q_eventId params @ ''/odds'',
                        req_params = [(''apiKey'', getApikey env),
                                      (''regions'', joinComma regions),
                                      (''markets'', joinComma markets),
                                      (''oddsFormat'', oddsFormat)]\<rparr>
         in case upstreamEventOdds env request of
              Inl e \<Rightarrow>
                (Inl e, [FeedCall ''getEventOdds'', HttpGet request, LogError ''Error fetching event odds:''])
            | Inr response \<Rightarrow>
                (Inr \<lparr>data = resp_data response, remaining = remainingOf rt response,
                      warning = None\<rparr>,
                 [FeedCall ''getEventOdds'', HttpGet request])))"

section \<open>Ingestion pipeline (OddsIngestionService)\<close>

record RefreshParams =
  r_sportKey :: string
  r_regions :: "string list option"
  r_markets :: "string list option"
  r_oddsFormat :: "string option"

record RefreshResult =
  ingestedSnapshots :: nat
  rr_remaining :: jsnum

text \<open>
  The body of the innermost loop: the selection row is overwritten and one snapshot row
  is written under the next sequence index.
\<close>

definition ingestOutcome ::
  "JsRuntime \<Rightarrow> string option \<Rightarrow> int \<Rightarrow> string \<Rightarrow> string \<Rightarrow> Outcome \<Rightarrow> nat \<Rightarrow> StoreOp list \<times> nat" where
  "ingestOutcome rt oddsFormat batchEpochMs bookId marketId out snapshotIndex =
     (let outcomeName = orStr (orOpt (o_name out) (o_description out)) ''outcome'';
          point = o_point out;
          price = (case o_price out of Some p \<Rightarrow> p
                   | None \<Rightarrow> (case o_odds out of Some p \<Rightarrow> p | None \<Rightarrow> Fin 0));
          selectionId = makeSelectionId rt marketId outcomeName point;
          isDecimal = (orStr oddsFormat ''american'' = ''decimal'');
          fmt = (if isDecimal then DECIMAL else AMERICAN);
          implied = (if isDecimal then decimalToImpliedProb_fp price
                     else americanToImpliedProb_fp price);
          snapshotId = makeOddsSnapshotId batchEpochMs snapshotIndex
      in ([MarketSelectionSet
             \<lparr>ms_id = selectionId, ms_market_id = marketId, ms_label = outcomeName,
              ms_player_id = [], ms_line_value = (case point of Some p \<Rightarrow> p | None \<Rightarrow> Fin 0),
              ms_side = outcomeName\<rparr>,
           OddsSnapshotSet
             \<lparr>os_id = snapshotId, os_sportsbook_id = bookId, os_selection_id = selectionId,
              os_odds_format = fmt, os_odds_value = price, os_implied_prob = implied,
              os_fetched_at = batchEpochMs\<rparr>],
          snapshotIndex + 1))"

fun ingestOutcomes ::
  "JsRuntime \<Rightarrow> string option \<Rightarrow> int \<Rightarrow> string \<Rightarrow> string \<Rightarrow> Outcome list \<Rightarrow> nat \<Rightarrow> StoreOp list \<times> nat" where
  "ingestOutcomes rt oddsFormat batchEpochMs bookId marketId [] snapshotIndex = ([], snapshotIndex)"
| "ingestOutcomes rt oddsFormat batchEpochMs bookId marketId (out # outs) snapshotIndex =
     (let (ops1, i1) = ingestOutcome rt oddsFormat batchEpochMs bookId marketId out snapshotIndex;
          (ops2, i2) = ingestOutcomes rt oddsFormat batchEpochMs bookId marketId outs i1
      in (ops1 @ ops2, i2))"

definition ingestMarket ::
  "JsRuntime \<Rightarrow> string option \<Rightarrow> int \<Rightarrow> string \<Rightarrow> string \<Rightarrow> string \<Rightarrow> string option \<Rightarrow> MarketObj \<Rightarrow> nat
     \<Rightarrow> StoreOp list \<times> nat" where
  "ingestMarket rt oddsFormat batchEpochMs eventId bookId bookKey lastUpdate mk snapshotIndex =
     (let marketKey = orStr (mk_key mk) [];
          marketId = makeMarketId eventId bookId marketKey;
          (ops, i1) = ingestOutcomes rt oddsFormat batchEpochMs bookId marketId (mk_outcomes mk) snapshotIndex
      in (MarketSet
            \<lparr>mr_id = marketId, mr_sport_event_id = eventId, mr_key = marketKey, mr_label = marketKey,
             mr_bookmaker_key = bookKey, mr_last_update = lastUpdate\<rparr> # ops,
          i1))"

fun ingestMarkets ::
  "JsRuntime \<Rightarrow> string option \<Rightarrow> int \<Rightarrow> string \<Rightarrow> string \<Rightarrow> string \<Rightarrow> string option \<Rightarrow> MarketObj list \<Rightarrow> nat
     \<Rightarrow> StoreOp list \<times> nat" where
  "ingestMarkets rt oddsFormat batchEpochMs eventId bookId bookKey lastUpdate [] snapshotIndex =
     ([], snapshotIndex)"
| "ingestMarkets rt oddsFormat batchEpochMs eventId bookId bookKey lastUpdate (mk # mks) snapshotIndex =
     (let (ops1, i1) = ingestMarket rt oddsFormat batchEpochMs eventId bookId bookKey lastUpdate mk snapshotIndex;
          (ops2, i2) = ingestMarkets rt oddsFormat batchEpochMs eventId bookId bookKey lastUpdate mks i1
      in (ops1 @ ops2, i2))"

definition ingestBookmaker ::
  "JsRuntime \<Rightarrow> string option \<Rightarrow> int \<Rightarrow> string \<Rightarrow> Bookmaker \<Rightarrow> nat \<Rightarrow> StoreOp list \<times> nat" where
  "ingestBookmaker rt oddsFormat batchEpochMs eventId bm snapshotIndex =
     (let bookKey = orStr (orOpt (bm_key bm) (bm_title bm)) ''unknown'';
          bookId = makeSportsbookId bookKey;
          (ops, i1) = ingestMarkets rt oddsFormat batchEpochMs eventId bookId bookKey
                        (bm_last_update bm) (bm_markets bm) snapshotIndex
      in (SportsbookSet
            \<lparr>sb_id = bookId, sb_name = orStr (bm_title bm) bookKey, sb_code = bookKey,
             sb_base_url = []\<rparr> # ops,
          i1))"

fun ingestBookmakers ::
  "JsRuntime \<Rightarrow> string option \<Rightarrow> int \<Rightarrow> string \<Rightarrow> Bookmaker list \<Rightarrow> nat \<Rightarrow> StoreOp list \<times> nat" where
  "ingestBookmakers rt oddsFormat batchEpochMs eventId [] snapshotIndex = ([], snapshotIndex)"
| "ingestBookmakers rt oddsFormat batchEpochMs eventId (bm # bms) snapshotIndex =
     (let (ops1, i1) = ingestBookmaker rt oddsFormat batchEpochMs eventId bm snapshotIndex;
          (ops2, i2) = ingestBookmakers rt oddsFormat batchEpochMs eventId bms i1
      in (ops1 @ ops2, i2))"

text \<open>\<open>name.slice(0, 3).toUpperCase() || "UNK"\<close>, as code units.\<close>

definition abbreviationOf :: "string \<Rightarrow> nat list" where
  "abbreviationOf name =
     (let a = toUpperCase (take 3 name) in if a = [] then map of_char ''UNK'' else a)"

definition teamRow :: "int \<Rightarrow> string \<Rightarrow> TeamRow" where
  "teamRow sportId name =
     \<lparr>tm_id = makeTeamId sportId name, tm_sport_id = sportId, tm_name = name,
      tm_abbreviation = abbreviationOf name, tm_external_ref = name\<rparr>"

text \<open>
  One event: both team rows (insert only), the event row, then the bookmakers. The
  clock is read only when the event has no start time.
\<close>

definition ingestEvent ::
  "JsRuntime \<Rightarrow> string option \<Rightarrow> int \<Rightarrow> string \<Rightarrow> int \<Rightarrow> OddsApiEvent \<Rightarrow> nat \<times> nat
     \<Rightarrow> StoreOp list \<times> nat \<times> nat" where
  "ingestEvent rt oddsFormat batchEpochMs sportKey sportId evt st =
     (let snapshotIndex = fst st; k = snd st;
          externalEventId = orStr (ev_id evt) [];
          eventId = makeEventId externalEventId;
          homeName = orStr (ev_home_team evt) [];
          awayName = orStr (ev_away_team evt) [];
          hasStart = truthyStr (ev_commence_time evt);
          startsAt = (if hasStart then DateOfString (orStr (ev_commence_time evt) [])
                      else DateOfMillis (dateNow rt k));
          k1 = (if hasStart then k else Suc k);
          (ops, i1) = ingestBookmakers rt oddsFormat batchEpochMs eventId (ev_bookmakers evt) snapshotIndex
      in ([TeamSetOnInsert (teamRow sportId homeName),
           TeamSetOnInsert (teamRow sportId awayName),
           SportEventSet
             \<lparr>se_id = eventId, se_sport_id = sportId, se_league_code = sportKey,
              se_home_team_id = makeTeamId sportId homeName,
              se_away_team_id = makeTeamId sportId awayName,
              se_starts_at = startsAt, se_status = ''scheduled'',
              se_external_ref = externalEventId\<rparr>] @ ops,
          i1, k1))"

fun ingestEvents ::
  "JsRuntime \<Rightarrow> string option \<Rightarrow> int \<Rightarrow> string \<Rightarrow> int \<Rightarrow> OddsApiEvent list \<Rightarrow> nat \<times> nat
     \<Rightarrow> StoreOp list \<times> nat \<times> nat" where
  "ingestEvents rt oddsFormat batchEpochMs sportKey sportId [] st = ([], st)"
| "ingestEvents rt oddsFormat batchEpochMs sportKey sportId (evt # evts) st =
     (let (ops1, st1) = ingestEvent rt oddsFormat batchEpochMs sportKey sportId evt st;
          (ops2, st2) = ingestEvents rt oddsFormat batchEpochMs sportKey sportId evts st1
      in (ops1 @ ops2, st2))"

text \<open>
  \<open>refreshOdds\<close>, started when the clock has been read \<open>k\<close> times: the result (or the
  error the feed client threw), the effects in order, and the number of clock readings
  afterwards.
\<close>

definition refreshOdds ::
  "JsRuntime \<Rightarrow> Env \<Rightarrow> nat \<Rightarrow> RefreshParams \<Rightarrow> (JsError + RefreshResult) \<times> Effect list \<times> nat" where
  "refreshOdds rt env k params =
     (let sportKey = r_sportKey params;
          oddsFormat = r_oddsFormat params;
          batchEpochMs = dateNow rt k;
          sportId = makeSportIdFromKey sportKey;
          ensureSport = Write (SportSetOnInsert \<lparr>sp_id = sportId, sp_name = sportKey, sp_key = sportKey\<rparr>)
      in case getOdds rt env \<lparr>p_sport = sportKey, p_regions = r_regions params,
                              p_markets = r_markets params, p_oddsFormat = oddsFormat\<rparr> of
           (Inl e, es) \<Rightarrow> (Inl e, ensureSport # es, Suc k)
         | (Inr res, es) \<Rightarrow>
             if truthyStr (warning res) then
               (Inr \<lparr>ingestedSnapshots = 0, rr_remaining = remaining res\<rparr>,
                ensureSport # es @ [LogWarn (''Odds ingestion skipped: '' @ orStr (warning res) [])],
                Suc k)
             else
               (let (ops, snapshotIndex, k1) =
                      ingestEvents rt oddsFormat batchEpochMs sportKey sportId (data res) (0, Suc k)
                in (Inr \<lparr>ingestedSnapshots = snapshotIndex, rr_remaining = remaining res\<rparr>,
                    ensureSport # es @ map Write ops, k1)))"

subsection \<open>Archive sweep\<close>

text \<open>
  \<open>new Date(Date.now() - daysOld * 24 * 60 * 60 * 1000)\<close>: the products and the
  difference are computed on doubles, from left to right; the time value is truncated
  to whole milliseconds; outside \<open>\<plusminus>8.64e15\<close>, or where the difference is not finite, the
  date is invalid (\<open>None\<close>), and the store's query then refuses to cast it.
\<close>

definition cutoffDate :: "int \<Rightarrow> jsnum \<Rightarrow> int option" where
  "cutoffDate now daysOld =
     (case jsSub (Fin (of_int now))
             (jsMul (jsMul (jsMul (jsMul daysOld (Fin 24)) (Fin 60)) (Fin 60)) (Fin 1000)) of
        Fin x \<Rightarrow> if \<bar>x\<bar> > 8640000000000000 then None else Some (truncRat x)
      | _ \<Rightarrow> None)"

definition castError :: JsError where
  "castError = \<lparr>err_message = ''Cast to date failed'', err_code = None, err_status = None\<rparr>"

definition toArchive :: "OddsSnapshotRow \<Rightarrow> int \<Rightarrow> OddsSnapshotArchiveRow" where
  "toArchive o' t =
     \<lparr>os_id = os_id o', os_sportsbook_id = os_sportsbook_id o', os_selection_id = os_selection_id o',
      os_odds_format = os_odds_format o', os_odds_value = os_odds_value o',
      os_implied_prob = os_implied_prob o', os_fetched_at = os_fetched_at o', archived_at = t\<rparr>"

text \<open>
  \<open>insertMany(docs, { ordered: false }).catch(() => {})\<close> on a collection with a unique
  \<open>id\<close>: every document is tried; one whose id is already archived, or that the store
  does not take (\<open>accepts\<close> is false), is skipped, and no failure is passed on.
\<close>

definition insertOne ::
  "(OddsSnapshotArchiveRow \<Rightarrow> bool) \<Rightarrow> OddsSnapshotArchiveRow \<Rightarrow> OddsSnapshotArchiveRow list
     \<Rightarrow> OddsSnapshotArchiveRow list" where
  "insertOne accepts d arch =
     (if accepts d \<and> os_id d \<notin> set (map os_id arch) then arch @ [d] else arch)"

definition insertManyUnordered ::
  "(OddsSnapshotArchiveRow \<Rightarrow> bool) \<Rightarrow> OddsSnapshotArchiveRow list \<Rightarrow> OddsSnapshotArchiveRow list
     \<Rightarrow> OddsSnapshotArchiveRow list" where
  "insertManyUnordered accepts docs arch = fold (insertOne accepts) docs arch"

record ArchiveResult =
  archived :: nat

definition archiveOldSnapshots ::
  "JsRuntime \<Rightarrow> (OddsSnapshotArchiveRow \<Rightarrow> bool) \<Rightarrow> nat \<Rightarrow> jsnum \<Rightarrow> Store
     \<Rightarrow> (JsError + ArchiveResult) \<times> Store \<times> nat" where
  "archiveOldSnapshots rt accepts k daysOld s =
     (case cutoffDate (dateNow rt k) daysOld of
        None \<Rightarrow> (Inl castError, s, Suc k)
      | Some cutoff \<Rightarrow>
          (let old = filter (\<lambda>o'. os_fetched_at o' < cutoff) (oddsSnapshots s)
           in if old = [] then (Inr \<lparr>archived = 0\<rparr>, s, Suc k)
              else
                (let docs = map (\<lambda>(o', j). toArchive o' (dateNow rt (Suc k + j)))
                              (zip old [0 ..< length old]);
                     ids = map os_id old
                 in (Inr \<lparr>archived = length old\<rparr>,
                     s\<lparr>oddsSnapshotArchive := insertManyUnordered accepts docs (oddsSnapshotArchive s),
                       oddsSnapshots := filter (\<lambda>o'. os_id o' \<notin> set ids) (oddsSnapshots s)\<rparr>,
                     Suc k + length old))))"

text \<open>\<open>status\<close>: the two counts and the latest fetch time of the hot collection.\<close>

record StatusResult =
  st_snapshots :: nat
  st_lastFetchedAt :: "int option"
  st_archived :: nat

definition status :: "Store \<Rightarrow> StatusResult" where
  "status s =
     \<lparr>st_snapshots = length (oddsSnapshots s),
      st_lastFetchedAt =
        (case oddsSnapshots s of [] \<Rightarrow> None
         | x # xs \<Rightarrow> Some (fold max (map os_fetched_at xs) (os_fetched_at x))),
      st_archived = length (oddsSnapshotArchive s)\<rparr>"

section \<open>Arbitrage (ArbitrageService)\<close>

record ArbitrageParams =
  a_sport :: string
  a_market :: string
  a_regions :: "string list option"
  a_oddsFormat :: "string option"
  a_top :: "jsnum option"

record BestEntry =
  be_bookmaker :: "string option"
  be_price :: jsnum

record ArbitrageLeg =
  leg_outcome :: string
  leg_bestBookmaker :: "string option"
  leg_bestPrice :: "jsnum option"
  leg_decimalOdds :: "jsnum option"
  leg_impliedProbability :: "jsnum option"

record ArbitrageOpportunity =
  ao_eventId :: "string option"
  ao_commenceTime :: "string option"
  ao_homeTeam :: "string option"
  ao_awayTeam :: "string option"
  ao_sportKey :: string
  ao_market :: string
  ao_impliedSum :: jsnum
  ao_edgePercent :: jsnum
  ao_legs :: "ArbitrageLeg list"

definition unsupportedMarketError :: "string \<Rightarrow> JsError" where
  "unsupportedMarketError market =
     \<lparr>err_message = ''UNSUPPORTED_MARKET: arbitrage currently supports market=h2h only (received: ''
                       @ market @ '')'',
      err_code = Some ''UNSUPPORTED_MARKET'', err_status = Some 422\<rparr>"

text \<open>
  The object \<open>best\<close> is the list of its own properties in insertion order; an assignment
  to an existing property keeps its place. The name \<open>__proto__\<close> is no property: reading
  it gives the prototype, which is an object without a \<open>price\<close> or the entry assigned
  before, and assigning an entry to it replaces the prototype and adds no own property.
  A name that \<open>best\<close> only inherits (\<open>constructor\<close>, \<open>toString\<close>, or \<open>price\<close> and
  \<open>bookmaker\<close> of an assigned prototype) reads as a value without a \<open>price\<close>, or as a
  falsy value; either way the entry is assigned, as for an absent name.
\<close>

definition bestStep :: "string option \<Rightarrow> Outcome \<Rightarrow> (string \<times> BestEntry) list \<Rightarrow> (string \<times> BestEntry) list" where
  "bestStep bookmakerKey oc best =
     (let outcomeName = trim (orStr (o_name oc) [])
      in case o_price oc of
           None \<Rightarrow> best
         | Some price \<Rightarrow>
             if outcomeName = [] \<or> \<not> isFinite price then best
             else if outcomeName = ''__proto__'' then best
             else
               (case map_of best outcomeName of
                  None \<Rightarrow> upsertSet fst (outcomeName, \<lparr>be_bookmaker = bookmakerKey, be_price = price\<rparr>) best
                | Some existing \<Rightarrow>
                    if jsLess (be_price existing) price
                    then upsertSet fst (outcomeName, \<lparr>be_bookmaker = bookmakerKey, be_price = price\<rparr>) best
                    else best))"

definition bestOfBookmaker :: "string \<Rightarrow> Bookmaker \<Rightarrow> (string \<times> BestEntry) list \<Rightarrow> (string \<times> BestEntry) list" where
  "bestOfBookmaker market bm best =
     (case find (\<lambda>m. mk_key m = Some market) (bm_markets bm) of
        None \<Rightarrow> best
      | Some marketObj \<Rightarrow> fold (bestStep (bm_key bm)) (mk_outcomes marketObj) best)"

definition bestPrices :: "string \<Rightarrow> OddsApiEvent \<Rightarrow> (string \<times> BestEntry) list" where
  "bestPrices market ev = fold (bestOfBookmaker market) (ev_bookmakers ev) []"

text \<open>
  \<open>Object.keys\<close>: the names that are array indices (canonical decimal numerals below
  \<open>2^32 - 1\<close>) come first, in ascending numeric order; the others follow in insertion order.
\<close>

definition isDigit :: "char \<Rightarrow> bool" where
  "isDigit c = (let n = (of_char c :: nat) in 48 \<le> n \<and> n \<le> 57)"

definition digitsValue :: "string \<Rightarrow> nat" where
  "digitsValue s = fold (\<lambda>c n. n * 10 + (of_char c - 48)) s 0"

definition arrayIndex :: "string \<Rightarrow> nat option" where
  "arrayIndex s =
     (if s \<noteq> [] \<and> list_all isDigit s \<and> (s = ''0'' \<or> hd s \<noteq> CHR ''0'') \<and> digitsValue s < 4294967295
      then Some (digitsValue s) else None)"

definition objectKeys :: "(string \<times> 'v) list \<Rightarrow> string list" where
  "objectKeys obj =
     (let ks = map fst obj
      in sort_key (\<lambda>k. case arrayIndex k of Some n \<Rightarrow> n | None \<Rightarrow> 0)
           (filter (\<lambda>k. arrayIndex k \<noteq> None) ks)
         @ filter (\<lambda>k. arrayIndex k = None) ks)"

definition makeLeg :: "(string \<times> BestEntry) list \<Rightarrow> string \<Rightarrow> ArbitrageLeg" where
  "makeLeg best name =
     (let price = map_option be_price (map_of best name);
          dec = (case price of Some p \<Rightarrow> americanToDecimal_fp p | None \<Rightarrow> NaN);
          implied = (case dec of Fin d \<Rightarrow> if d > 0 then jsDiv (Fin 1) dec else NaN | _ \<Rightarrow> NaN)
      in \<lparr>leg_outcome = name,
          leg_bestBookmaker = (case map_of best name of Some e \<Rightarrow> be_bookmaker e | None \<Rightarrow> None),
          leg_bestPrice = price,
          leg_decimalOdds = (if isFinite dec then Some dec else None),
          leg_impliedProbability = (if isFinite implied then Some implied else None)\<rparr>)"

definition impliedSumOf :: "ArbitrageLeg list \<Rightarrow> jsnum" where
  "impliedSumOf legs =
     fold (\<lambda>l acc. jsAdd acc (case leg_impliedProbability l of Some v \<Rightarrow> v | None \<Rightarrow> Fin 0))
       legs (Fin 0)"

text \<open>The body of the loop over the events: the opportunity pushed for the event, if any.\<close>

definition arbitrageOf :: "string \<Rightarrow> string \<Rightarrow> OddsApiEvent \<Rightarrow> ArbitrageOpportunity option" where
  "arbitrageOf sport market ev =
     (let best = bestPrices market ev;
          outcomes = objectKeys best
      in if length outcomes \<noteq> 2 then None
         else
           (let legs = map (makeLeg best) outcomes
            in case impliedSumOf legs of
                 Fin sm \<Rightarrow>
                   if sm \<le> 0 then None
                   else if sm < 1 then
                     Some \<lparr>ao_eventId = ev_id ev, ao_commenceTime = ev_commence_time ev,
                           ao_homeTeam = ev_home_team ev, ao_awayTeam = ev_away_team ev,
                           ao_sportKey = sport, ao_market = market,
                           ao_impliedSum = Fin sm,
                           ao_edgePercent = jsMul (jsSub (jsDiv (Fin 1) (Fin sm)) (Fin 1)) (Fin 100),
                           ao_legs = legs\<rparr>
                   else None
               | _ \<Rightarrow> None))"

definition arbitrageLimit :: "jsnum option \<Rightarrow> jsnum" where
  "arbitrageLimit topN =
     mathMax (Fin 1) (mathMin (Fin 200) (case topN of Some t \<Rightarrow> t | None \<Rightarrow> Fin 50))"

definition getArbitrage ::
  "JsRuntime \<Rightarrow> Env \<Rightarrow> ArbitrageParams \<Rightarrow> (JsError + (ArbitrageOpportunity list) Result) \<times> Effect list" where
  "getArbitrage rt env params =
     (let sport = a_sport params;
          market = a_market params;
          regions = (case a_regions params of Some r \<Rightarrow> r | None \<Rightarrow> [''us'']);
          oddsFormat = (case a_oddsFormat params of Some f \<Rightarrow> f | None \<Rightarrow> ''american'')
      in if market \<noteq> ''h2h'' then (Inl (unsupportedMarketError market), [])
         else
           (case getOdds rt env \<lparr>p_sport = sport, p_regions = Some regions,
                                  p_markets = Some [market], p_oddsFormat = Some oddsFormat\<rparr> of
              (Inl e, es) \<Rightarrow> (Inl e, es)
            | (Inr oddsRes, es) \<Rightarrow>
                if truthyStr (warning oddsRes) then
                  (Inr \<lparr>data = [], remaining = remaining oddsRes, warning = warning oddsRes\<rparr>, es)
                else
                  (let out = List.map_filter (arbitrageOf sport market) (data oddsRes);
                       sorted = jsSort (\<lambda>a b. jsSub (ao_edgePercent b) (ao_edgePercent a)) out
                   in (Inr \<lparr>data = sliceTo (arbitrageLimit (a_top params)) sorted,
                             remaining = remaining oddsRes, warning = None\<rparr>, es))))"

section \<open>Cheat sheet (CheatSheetService)\<close>

record CheatSheetOutcome =
  cs_eventId :: "string option"
  cs_commenceTime :: "string option"
  cs_homeTeam :: "string option"
  cs_awayTeam :: "string option"
  cs_sportKey :: string
  cs_player :: string
  cs_side :: string
  cs_line :: "jsnum option"
  cs_bestBookmaker :: "string option"
  cs_bestPrice :: "jsnum option"
  cs_impliedProbability :: "jsnum option"

text \<open>The service's own conversion: NaN, not 0, for a zero or non-finite price.\<close>

definition americanToImpliedProb_cs :: "jsnum \<Rightarrow> jsnum" where
  "americanToImpliedProb_cs price =
     (case price of
        Fin p \<Rightarrow>
          if p = 0 then NaN
          else if p < 0 then jsDiv (Fin \<bar>p\<bar>) (jsAdd (Fin \<bar>p\<bar>) (Fin 100))
          else jsDiv (Fin 100) (jsAdd (Fin p) (Fin 100))
      | _ \<Rightarrow> NaN)"

definition finiteOrNull :: "jsnum option \<Rightarrow> jsnum option" where
  "finiteOrNull x = (case x of Some v \<Rightarrow> if isFinite v then Some v else None | None \<Rightarrow> None)"

record CheatSheetParams =
  c_sport :: string
  c_market :: string
  c_regions :: "string list option"
  c_oddsFormat :: "string option"
  c_top :: "jsnum option"

definition cheatKey :: "JsRuntime \<Rightarrow> string option \<Rightarrow> string \<Rightarrow> string \<Rightarrow> jsnum option \<Rightarrow> string" where
  "cheatKey rt eventId player side line =
     (case eventId of Some e \<Rightarrow> e | None \<Rightarrow> ''undefined'') @ ''|'' @ player @ ''|'' @ side @ ''|''
       @ (case line of Some l \<Rightarrow> numberToString rt l | None \<Rightarrow> ''null'')"

text \<open>
  The choice between the entry a key already has and a new candidate:
  the candidate is stored when the entry has no price and the candidate has one, or
  when both have one and the candidate's is greater.
\<close>

definition replaces :: "CheatSheetOutcome \<Rightarrow> CheatSheetOutcome \<Rightarrow> bool" where
  "replaces existing candidate =
     (case (cs_bestPrice existing, cs_bestPrice candidate) of
        (None, Some c) \<Rightarrow> True
      | (Some e, Some c) \<Rightarrow> jsLess e c
      | _ \<Rightarrow> False)"

definition offer ::
  "string \<Rightarrow> CheatSheetOutcome \<Rightarrow> (string \<times> CheatSheetOutcome) list \<Rightarrow> (string \<times> CheatSheetOutcome) list" where
  "offer key candidate bestMap =
     (case map_of bestMap key of
        None \<Rightarrow> upsertSet fst (key, candidate) bestMap
      | Some existing \<Rightarrow>
          if replaces existing candidate then upsertSet fst (key, candidate) bestMap else bestMap)"

text \<open>The candidate an outcome gives, with its key, or nothing when player or side is empty.\<close>

definition candidateOf ::
  "JsRuntime \<Rightarrow> string \<Rightarrow> string \<Rightarrow> OddsApiEvent \<Rightarrow> string option \<Rightarrow> Outcome
     \<Rightarrow> (string \<times> CheatSheetOutcome) option" where
  "candidateOf rt sport market ev bookmakerKey oc =
     (let outcomeName = trim (case o_name oc of Some n \<Rightarrow> n | None \<Rightarrow> []);
          participant = trim (orStr (orOpt (orOpt (o_description oc) (o_participant oc)) (o_player oc)) []);
          isPlayerProp = startsWith (toLowerCase market) ''player_'';
          player = (if isPlayerProp then participant
                    else if outcomeName \<noteq> [] then outcomeName else participant);
          side = (if isPlayerProp then outcomeName else market);
          line = o_point oc;
          price = o_price oc
      in if player = [] \<or> side = [] then None
         else
           (let implied = (case price of
                             Some p \<Rightarrow> if isFinite p then Some (americanToImpliedProb_cs p) else None
                           | None \<Rightarrow> None)
            in Some (cheatKey rt (ev_id ev) player side line,
                     \<lparr>cs_eventId = ev_id ev, cs_commenceTime = ev_commence_time ev,
                      cs_homeTeam = ev_home_team ev, cs_awayTeam = ev_away_team ev,
                      cs_sportKey = sport, cs_player = player, cs_side = side,
                      cs_line = finiteOrNull line, cs_bestBookmaker = bookmakerKey,
                      cs_bestPrice = finiteOrNull price,
                      cs_impliedProbability = finiteOrNull implied\<rparr>)))"

definition cheatStep ::
  "JsRuntime \<Rightarrow> string \<Rightarrow> string \<Rightarrow> OddsApiEvent \<Rightarrow> string option \<Rightarrow> Outcome
     \<Rightarrow> (string \<times> CheatSheetOutcome) list \<Rightarrow> (string \<times> CheatSheetOutcome) list" where
  "cheatStep rt sport market ev bookmakerKey oc bestMap =
     (case candidateOf rt sport market ev bookmakerKey oc of
        None \<Rightarrow> bestMap
      | Some (key, candidate) \<Rightarrow> offer key candidate bestMap)"

definition cheatOfBookmaker ::
  "JsRuntime \<Rightarrow> string \<Rightarrow> string \<Rightarrow> OddsApiEvent \<Rightarrow> Bookmaker
     \<Rightarrow> (string \<times> CheatSheetOutcome) list \<Rightarrow> (string \<times> CheatSheetOutcome) list" where
  "cheatOfBookmaker rt sport market ev bm bestMap =
     (case find (\<lambda>m. mk_key m = Some market) (bm_markets bm) of
        None \<Rightarrow> bestMap
      | Some marketObj \<Rightarrow> fold (cheatStep rt sport market ev (bm_key bm)) (mk_outcomes marketObj) bestMap)"

definition cheatOfEvent ::
  "JsRuntime \<Rightarrow> string \<Rightarrow> string \<Rightarrow> OddsApiEvent
     \<Rightarrow> (string \<times> CheatSheetOutcome) list \<Rightarrow> (string \<times> CheatSheetOutcome) list" where
  "cheatOfEvent rt sport market ev bestMap =
     fold (cheatOfBookmaker rt sport market ev) (ev_bookmakers ev) bestMap"

definition buildBestMap ::
  "JsRuntime \<Rightarrow> string \<Rightarrow> string \<Rightarrow> OddsApiEvent list \<Rightarrow> (string \<times> CheatSheetOutcome) list" where
  "buildBestMap rt sport market events = fold (cheatOfEvent rt sport market) events []"

text \<open>
  The player-prop branch: one \<open>getEventOdds\<close> call for each selected event that has an
  id; an error of a call ends the loop and is thrown.
\<close>

fun fetchEventOdds ::
  "JsRuntime \<Rightarrow> Env \<Rightarrow> string \<Rightarrow> string \<Rightarrow> string list \<Rightarrow> string \<Rightarrow> OddsApiEvent list
     \<Rightarrow> jsnum \<Rightarrow> OddsApiEvent list \<Rightarrow> (JsError + jsnum \<times> OddsApiEvent list) \<times> Effect list" where
  "fetchEventOdds rt env sport market regions oddsFormat [] rem enriched = (Inr (rem, enriched), [])"
| "fetchEventOdds rt env sport market regions oddsFormat (ev # evs) rem enriched =
     (if \<not> truthyStr (ev_id ev) then
        fetchEventOdds rt env sport market regions oddsFormat evs rem enriched
      else
        (case getEventOdds rt env \<lparr>q_sport = sport, q_eventId = orStr (ev_id ev) [],
                                    q_regions = Some regions, q_markets = Some [market],
                                    q_oddsFormat = Some oddsFormat\<rparr> of
           (Inl e, es) \<Rightarrow> (Inl e, es)
         | (Inr evOddsRes, es) \<Rightarrow>
             (case fetchEventOdds rt env sport market regions oddsFormat evs (remaining evOddsRes)
                     (case data evOddsRes of Some d \<Rightarrow> enriched @ [d] | None \<Rightarrow> enriched) of
                (r, es') \<Rightarrow> (r, es @ es'))))"

text \<open>\<open>a !== b\<close> on numbers: NaN differs from everything, itself included.\<close>

definition jsStrictEq :: "jsnum \<Rightarrow> jsnum \<Rightarrow> bool" where
  "jsStrictEq a b = (a = b \<and> a \<noteq> NaN)"

definition cheatCompare :: "JsRuntime \<Rightarrow> CheatSheetOutcome \<Rightarrow> CheatSheetOutcome \<Rightarrow> jsnum" where
  "cheatCompare rt a b =
     (let ta = (if truthyStr (cs_commenceTime a) then dateParse rt (orStr (cs_commenceTime a) []) else Fin 0);
          tb = (if truthyStr (cs_commenceTime b) then dateParse rt (orStr (cs_commenceTime b) []) else Fin 0);
          pa = (case cs_impliedProbability a of Some v \<Rightarrow> v | None \<Rightarrow> Fin 1);
          pb = (case cs_impliedProbability b of Some v \<Rightarrow> v | None \<Rightarrow> Fin 1)
      in if \<not> jsStrictEq ta tb then jsSub ta tb else jsSub pa pb)"

definition cheatLimit :: "jsnum option \<Rightarrow> jsnum" where
  "cheatLimit topN =
     mathMax (Fin 1) (mathMin (Fin 500) (case topN of Some t \<Rightarrow> t | None \<Rightarrow> Fin 50))"

definition cheatRows ::
  "JsRuntime \<Rightarrow> string \<Rightarrow> string \<Rightarrow> jsnum option \<Rightarrow> OddsApiEvent list \<Rightarrow> CheatSheetOutcome list" where
  "cheatRows rt sport market topN events =
     sliceTo (cheatLimit topN) (jsSort (cheatCompare rt) (map snd (buildBestMap rt sport market events)))"

definition getPlayerPropsCheatSheet ::
  "JsRuntime \<Rightarrow> Env \<Rightarrow> CheatSheetParams \<Rightarrow> (JsError + (CheatSheetOutcome list) Result) \<times> Effect list" where
  "getPlayerPropsCheatSheet rt env params =
     (let sport = c_sport params;
          market = c_market params;
          regions = (case c_regions params of Some r \<Rightarrow> r | None \<Rightarrow> [''us'']);
          oddsFormat = (case c_oddsFormat params of Some f \<Rightarrow> f | None \<Rightarrow> ''american'');
          topN = c_top params
      in if \<not> startsWith (toLowerCase market) ''player_'' then
           (case getOdds rt env \<lparr>p_sport = sport, p_regions = Some regions,
                                  p_markets = Some [market], p_oddsFormat = Some oddsFormat\<rparr> of
              (Inl e, es) \<Rightarrow> (Inl e, es)
            | (Inr oddsRes, es) \<Rightarrow>
                if truthyStr (warning oddsRes) then
                  (Inr \<lparr>data = [], remaining = remaining oddsRes, warning = warning oddsRes\<rparr>, es)
                else
                  (Inr \<lparr>data = cheatRows rt sport market topN (data oddsRes),
                        remaining = remaining oddsRes, warning = None\<rparr>, es))
         else
           (case getEvents rt env sport of
              (Inl e, es) \<Rightarrow> (Inl e, es)
            | (Inr eventsRes, es) \<Rightarrow>
                if truthyStr (warning eventsRes) then
                  (Inr \<lparr>data = [], remaining = remaining eventsRes, warning = warning eventsRes\<rparr>, es)
                else
                  (case fetchEventOdds rt env sport market regions oddsFormat
                          (take 10 (data eventsRes)) (remaining eventsRes) [] of
                     (Inl e, es') \<Rightarrow> (Inl e, es @ es')
                   | (Inr (rem, enriched), es') \<Rightarrow>
                       (Inr \<lparr>data = cheatRows rt sport market topN enriched,
                             remaining = rem, warning = None\<rparr>, es @ es'))))"

section \<open>Positive EV entry point (sportsToolsController)\<close>

record PositiveEVQuery =
  qs_sport :: "string option"
  qs_region :: "string option"
  qs_markets :: "string option"
  qs_oddsFormat :: "string option"

record 'b PositiveEVData =
  pev_sport_key :: string
  pev_sport_title :: string
  pev_sport_group :: string
  pev_region :: string
  pev_count :: nat
  pev_bets :: "'b list"

text \<open>
  The response: \<open>{ success: true, data }\<close>, or status 500 with
  \<open>{ success: false, error: { message } }\<close>.
\<close>

datatype 'b ApiResponse = Success "'b PositiveEVData" | Failure nat string

text \<open>
  \<open>getPositiveEV\<close>. The detection itself, \<open>positiveEVService.findPositiveEVBets\<close>, is not
  part of the sources at hand and is a parameter: from the events, the sport's title
  and group and the region to the bets, or the error it throws.
\<close>

definition getPositiveEV ::
  "JsRuntime \<Rightarrow> Env \<Rightarrow> (OddsApiEvent list \<Rightarrow> string \<Rightarrow> string \<Rightarrow> string \<Rightarrow> JsError + 'b list)
     \<Rightarrow> PositiveEVQuery \<Rightarrow> 'b ApiResponse \<times> Effect list" where
  "getPositiveEV rt env findPositiveEVBets query =
     (let sportKey = orStr (qs_sport query) ''basketball_nba'';
          region = orStr (qs_region query) ''us'';
          markets = orStr (qs_markets query) ''h2h,spreads,totals'';
          oddsFormat = orStr (qs_oddsFormat query) ''american'';
          (sport, es1) = getSportByKey rt env sportKey;
          title = orStr (case sport of Some s \<Rightarrow> si_title s | None \<Rightarrow> None) sportKey;
          group = orStr (case sport of Some s \<Rightarrow> si_group s | None \<Rightarrow> None) ''Unknown''
      in case getOdds rt env \<lparr>p_sport = sportKey, p_regions = Some (splitTrimmed region),
                              p_markets = Some (splitTrimmed markets),
                              p_oddsFormat = Some oddsFormat\<rparr> of
           (Inl e, es2) \<Rightarrow>
             (Failure 500 (orStr (Some (err_message e)) ''Failed to compute positive EV bets''), es1 @ es2)
         | (Inr oddsResp, es2) \<Rightarrow>
             (case findPositiveEVBets (data oddsResp) title group region of
                Inl e \<Rightarrow>
                  (Failure 500 (orStr (Some (err_message e)) ''Failed to compute positive EV bets''),
                   es1 @ es2)
              | Inr bets \<Rightarrow>
                  (Success \<lparr>pev_sport_key = sportKey, pev_sport_title = title, pev_sport_group = group,
                            pev_region = region, pev_count = length bets, pev_bets = bets\<rparr>,
                   es1 @ es2)))"

section \<open>Views of the store writes\<close>

text \<open>The rows a list of store operations writes to each collection, in order.\<close>

definition sportWrites :: "StoreOp list \<Rightarrow> SportRow list" where
  "sportWrites ops = List.map_filter (\<lambda>w. case w of SportSetOnInsert r \<Rightarrow> Some r | _ \<Rightarrow> None) ops"

definition teamWrites :: "StoreOp list \<Rightarrow> TeamRow list" where
  "teamWrites ops = List.map_filter (\<lambda>w. case w of TeamSetOnInsert r \<Rightarrow> Some r | _ \<Rightarrow> None) ops"

definition eventWrites :: "StoreOp list \<Rightarrow> SportEventRow list" where
  "eventWrites ops = List.map_filter (\<lambda>w. case w of SportEventSet r \<Rightarrow> Some r | _ \<Rightarrow> None) ops"

definition bookWrites :: "StoreOp list \<Rightarrow> SportsbookRow list" where
  "bookWrites ops = List.map_filter (\<lambda>w. case w of SportsbookSet r \<Rightarrow> Some r | _ \<Rightarrow> None) ops"

definition marketWrites :: "StoreOp list \<Rightarrow> MarketRow list" where
  "marketWrites ops = List.map_filter (\<lambda>w. case w of MarketSet r \<Rightarrow> Some r | _ \<Rightarrow> None) ops"

definition selectionWrites :: "StoreOp list \<Rightarrow> MarketSelectionRow list" where
  "selectionWrites ops =
     List.map_filter (\<lambda>w. case w of MarketSelectionSet r \<Rightarrow> Some r | _ \<Rightarrow> None) ops"

definition snapshotWrites :: "StoreOp list \<Rightarrow> OddsSnapshotRow list" where
  "snapshotWrites ops = List.map_filter (\<lambda>w. case w of OddsSnapshotSet r \<Rightarrow> Some r | _ \<Rightarrow> None) ops"

definition snapshotIds :: "Effect list \<Rightarrow> int list" where
  "snapshotIds es = map os_id (snapshotWrites (storeOps es))"

text \<open>An event row without its time stamp, and a store operation without time stamps and snapshot id.\<close>

definition stripEvent :: "SportEventRow \<Rightarrow> SportEventRow" where
  "stripEvent r = r\<lparr>se_starts_at := DateOfMillis 0\<rparr>"

fun stripOp :: "StoreOp \<Rightarrow> StoreOp" where
  "stripOp (SportEventSet r) = SportEventSet (stripEvent r)"
| "stripOp (OddsSnapshotSet r) = OddsSnapshotSet (r\<lparr>os_id := 0, os_fetched_at := 0\<rparr>)"
| "stripOp w = w"

section \<open>Views of the cheat sheet\<close>

text \<open>
  The candidates the loops of the cheat sheet offer to the map, with their keys, in the
  order the loops visit them.
\<close>

definition bookmakerCandidates ::
  "JsRuntime \<Rightarrow> string \<Rightarrow> string \<Rightarrow> OddsApiEvent \<Rightarrow> Bookmaker \<Rightarrow> (string \<times> CheatSheetOutcome) list" where
  "bookmakerCandidates rt sport market ev bm =
     (case find (\<lambda>m. mk_key m = Some market) (bm_markets bm) of
        None \<Rightarrow> []
      | Some marketObj \<Rightarrow>
          List.map_filter (candidateOf rt sport market ev (bm_key bm)) (mk_outcomes marketObj))"

definition allCandidates ::
  "JsRuntime \<Rightarrow> string \<Rightarrow> string \<Rightarrow> OddsApiEvent list \<Rightarrow> (string \<times> CheatSheetOutcome) list" where
  "allCandidates rt sport market events =
     concat (map (\<lambda>ev. concat (map (bookmakerCandidates rt sport market ev) (ev_bookmakers ev))) events)"

text \<open>
  The price of a row as a rank: no price is the lowest rank, a finite price ranks by its
  value (the order on \<open>rat option\<close> puts \<open>None\<close> below every \<open>Some\<close>).
\<close>

definition priceRank :: "CheatSheetOutcome \<Rightarrow> rat option" where
  "priceRank c = (case cs_bestPrice c of Some (Fin p) \<Rightarrow> Some p | _ \<Rightarrow> None)"

definition finitePrice :: "CheatSheetOutcome \<Rightarrow> bool" where
  "finitePrice c = (case cs_bestPrice c of Some v \<Rightarrow> isFinite v | None \<Rightarrow> True)"

section \<open>Views of the arbitrage\<close>

text \<open>
  The implied probability of a leg with a finite best price, written out: the price is
  converted to decimal odds (\<open>1 + p / 100\<close> for a positive price,
  \<open>1 + 100 / |p|\<close> for a negative one) and the implied probability is one over the
  decimal odds, each operation on doubles. There is none where the decimal odds are not
  a positive finite number (so for the price 0) or the quotient is not finite. A leg
  without implied probability counts as 0 in the sum.
\<close>

definition impliedOf :: "rat \<Rightarrow> jsnum option" where
  "impliedOf p =
     (case (if p = 0 then Fin 0
            else if 0 < p then jsAdd (Fin 1) (jsDiv (Fin p) (Fin 100))
            else jsAdd (Fin 1) (jsDiv (Fin 100) (Fin \<bar>p\<bar>))) of
        Fin d \<Rightarrow>
          if 0 < d then (case jsDiv (Fin 1) (Fin d) of Fin i \<Rightarrow> Some (Fin i) | _ \<Rightarrow> None)
          else None
      | _ \<Rightarrow> None)"

definition impliedOr0 :: "rat \<Rightarrow> jsnum" where
  "impliedOr0 p = (case impliedOf p of Some v \<Rightarrow> v | None \<Rightarrow> Fin 0)"

text \<open>
  The limit in the words of the specification: the caller's number, 50 by default,
  clamped to the interval from 1 to 200, as a count of rows.
\<close>

definition clampedLimit :: "jsnum option \<Rightarrow> nat" where
  "clampedLimit topN =
     (case topN of
        None \<Rightarrow> 50
      | Some (Fin r) \<Rightarrow> nat \<lfloor>max 1 (min 200 r)\<rfloor>
      | Some PInf \<Rightarrow> 200
      | Some NInf \<Rightarrow> 1
      | Some NaN \<Rightarrow> 1)"

text \<open>What the loop over the outcomes keeps true of \<open>best\<close>: one entry per name, every price finite.\<close>

definition bestInv :: "(string \<times> BestEntry) list \<Rightarrow> bool" where
  "bestInv best \<longleftrightarrow> distinct (map fst best) \<and> (\<forall>(n, e) \<in> set best. isFinite (be_price e))"

section \<open>Sample inputs\<close>

text \<open>Concrete inputs on which the theorems below are instantiated.\<close>

definition sampleRuntime :: JsRuntime where
  "sampleRuntime =
     \<lparr>numberToString = (\<lambda>n. ''n''), parseInt = (\<lambda>s. Fin 0), dateParse = (\<lambda>s. Fin 0),
      dateNow = (\<lambda>k. 1700000000000 + int k)\<rparr>"

definition sampleOutcome :: "string \<Rightarrow> rat \<Rightarrow> Outcome" where
  "sampleOutcome name price =
     \<lparr>o_name = Some name, o_description = None, o_participant = None, o_player = None,
      o_point = None, o_price = Some (Fin price), o_odds = None\<rparr>"

definition sampleBookmaker :: "string \<Rightarrow> Outcome list \<Rightarrow> Bookmaker" where
  "sampleBookmaker key outcomes =
     \<lparr>bm_key = Some key, bm_title = Some key, bm_last_update = None,
      bm_markets = [\<lparr>mk_key = Some ''h2h'', mk_outcomes = outcomes\<rparr>]\<rparr>"

definition sampleEvent :: "Bookmaker list \<Rightarrow> OddsApiEvent" where
  "sampleEvent bookmakers =
     \<lparr>ev_id = Some ''e1'', ev_commence_time = Some ''2026-01-01T00:00:00Z'',
      ev_home_team = Some ''Lakers'', ev_away_team = Some ''Celtics'',
      ev_bookmakers = bookmakers\<rparr>"

text \<open>An environment with the given credential whose provider answers every odds request with the given events.\<close>

definition sampleEnv :: "string option \<Rightarrow> OddsApiEvent list \<Rightarrow> Env" where
  "sampleEnv key events =
     \<lparr>ODDS_API_KEY = key, ODDS_API_BASE_URL = None,
      upstreamOdds = (\<lambda>r. Inr \<lparr>resp_data = events, resp_requests_remaining = Some ''0''\<rparr>),
      upstreamSports = (\<lambda>r. Inr \<lparr>resp_data = [], resp_requests_remaining = Some ''0''\<rparr>),
      upstreamEvents = (\<lambda>r. Inr \<lparr>resp_data = events, resp_requests_remaining = Some ''0''\<rparr>),
      upstreamEventOdds = (\<lambda>r. Inr \<lparr>resp_data = None, resp_requests_remaining = Some ''0''\<rparr>)\<rparr>"

definition sampleRefresh :: RefreshParams where
  "sampleRefresh = \<lparr>r_sportKey = ''nba'', r_regions = None, r_markets = None, r_oddsFormat = None\<rparr>"

definition sampleFeed :: "OddsApiEvent list" where
  "sampleFeed =
     [sampleEvent [sampleBookmaker ''dk'' [sampleOutcome ''Lakers'' 150, sampleOutcome ''Celtics'' (-120)]]]"

definition emptyStore :: Store where
  "emptyStore =
     \<lparr>sports = [], teams = [], sportEvents = [], sportsbooks = [], markets = [],
      marketSelections = [], oddsSnapshots = [], oddsSnapshotArchive = []\<rparr>"

text \<open>A clock that does not advance between two readings (both fall in the same millisecond).\<close>

definition frozenRuntime :: JsRuntime where
  "frozenRuntime = sampleRuntime\<lparr>dateNow := (\<lambda>k. 1700000000000)\<rparr>"

definition sampleSnapshot :: "int \<Rightarrow> int \<Rightarrow> OddsSnapshotRow" where
  "sampleSnapshot i fetched =
     \<lparr>os_id = i, os_sportsbook_id = ''book:dk'', os_selection_id = ''sel:x'',
      os_odds_format = AMERICAN, os_odds_value = Fin 100, os_implied_prob = Fin (1 / 2),
      os_fetched_at = fetched\<rparr>"

text \<open>A store with one snapshot fetched long ago and one fetched a second before the sample clock starts.\<close>

definition sampleStore :: Store where
  "sampleStore =
     emptyStore\<lparr>oddsSnapshots := [sampleSnapshot 1 1600000000000, sampleSnapshot 2 1699999999000]\<rparr>"

text \<open>
  A store with one snapshot fetched long ago and one fetched a millisecond after the
  seven-day cutoff of the first reading of the sample clock.
\<close>

definition gapStore :: Store where
  "gapStore =
     emptyStore\<lparr>oddsSnapshots := [sampleSnapshot 1 1600000000000, sampleSnapshot 2 1699395200001]\<rparr>"

text \<open>The sample store after a sweep with a seven-day cutoff on the frozen clock.\<close>

definition sweptStore :: Store where
  "sweptStore =
     emptyStore\<lparr>oddsSnapshots := [sampleSnapshot 2 1699999999000],
                oddsSnapshotArchive := [toArchive (sampleSnapshot 1 1600000000000) 1700000000000]\<rparr>"

text \<open>Two bookmakers quoting the same side at -110 and at +105, and the row of the better quote.\<close>

definition cheatFeed :: "OddsApiEvent list" where
  "cheatFeed =
     [sampleEvent [sampleBookmaker ''dk'' [sampleOutcome ''Lakers'' (-110)],
                   sampleBookmaker ''fd'' [sampleOutcome ''Lakers'' 105]]]"

definition cheatRow :: "string \<Rightarrow> rat \<Rightarrow> CheatSheetOutcome" where
  "cheatRow book price =
     \<lparr>cs_eventId = Some ''e1'', cs_commenceTime = Some ''2026-01-01T00:00:00Z'',
      cs_homeTeam = Some ''Lakers'', cs_awayTeam = Some ''Celtics'', cs_sportKey = ''nba'',
      cs_player = ''Lakers'', cs_side = ''h2h'', cs_line = None, cs_bestBookmaker = Some book,
      cs_bestPrice = Some (Fin price),
      cs_impliedProbability = Some (americanToImpliedProb_cs (Fin price))\<rparr>"

text \<open>An event quoted by one bookmaker at the two given prices.\<close>

definition quotedEvent :: "rat \<Rightarrow> rat \<Rightarrow> OddsApiEvent" where
  "quotedEvent p1 p2 =
     sampleEvent [sampleBookmaker ''dk'' [sampleOutcome ''Lakers'' p1, sampleOutcome ''Celtics'' p2]]"

text \<open>An event whose two outcomes are both quoted at the price 0.\<close>

definition zeroEvent :: OddsApiEvent where
  "zeroEvent = sampleEvent [sampleBookmaker ''dk'' [sampleOutcome ''Lakers'' 0, sampleOutcome ''Celtics'' 0]]"

definition sampleArbitrage :: "jsnum option \<Rightarrow> ArbitrageParams" where
  "sampleArbitrage topN =
     \<lparr>a_sport = ''nba'', a_market = ''h2h'', a_regions = None, a_oddsFormat = None, a_top = topN\<rparr>"

text \<open>A request without parameters, and a detection that reports one bet per event.\<close>

definition sampleQuery :: PositiveEVQuery where
  "sampleQuery = \<lparr>qs_sport = None, qs_region = None, qs_markets = None, qs_oddsFormat = None\<rparr>"

definition sampleDetection :: "OddsApiEvent list \<Rightarrow> string \<Rightarrow> string \<Rightarrow> string \<Rightarrow> JsError + string option list" where
  "sampleDetection events title grp region = Inr (map ev_id events)"

section \<open>Odds math: round trip\<close>

text \<open>
  Claim C7. For every finite American price \<open>x \<noteq> 0\<close>, converting to decimal odds and
  then to an implied probability gives exactly the implied probability of the American
  price (over exact rational arithmetic); that probability is \<open>100 / (x + 100)\<close> for
  positive \<open>x\<close> and \<open>|x| / (|x| + 100)\<close> for negative \<open>x\<close>; zero and the non-finite
  inputs give 0.
\<close>

theorem odds_round_trip:
  "(x \<noteq> 0 \<longrightarrow>
      decimalToImpliedProb (americanToDecimal (Fin x)) = americanToImpliedProb (Fin x))
   \<and> (x > 0 \<longrightarrow> americanToImpliedProb (Fin x) = Fin (100 / (x + 100)))
   \<and> (x < 0 \<longrightarrow> americanToImpliedProb (Fin x) = Fin (\<bar>x\<bar> / (\<bar>x\<bar> + 100)))
   \<and> americanToImpliedProb (Fin 0) = Fin 0
   \<and> americanToImpliedProb NaN = Fin 0
   \<and> americanToImpliedProb PInf = Fin 0
   \<and> americanToImpliedProb NInf = Fin 0"
proof -
  have pos: "decimalToImpliedProb (americanToDecimal (Fin x)) = americanToImpliedProb (Fin x)"
    if "x > 0"
  proof -
    have "1 + x / 100 > 0" using that by simp
    moreover have "1 / (1 + x / 100) = 100 / (x + 100)"
      using that by (simp add: field_simps)
    ultimately show ?thesis
      using that by (simp add: decimalToImpliedProb_def americanToDecimal_def
          americanToImpliedProb_def)
  qed
  have neg: "decimalToImpliedProb (americanToDecimal (Fin x)) = americanToImpliedProb (Fin x)"
    if "x < 0"
  proof -
    have a: "\<bar>x\<bar> > 0" using that by simp
    then have "1 + 100 / \<bar>x\<bar> > 0" by (simp add: add_pos_pos)
    moreover have "1 / (1 + 100 / \<bar>x\<bar>) = \<bar>x\<bar> / (\<bar>x\<bar> + 100)"
      using a by (simp add: field_simps)
    ultimately show ?thesis
      using that by (simp add: decimalToImpliedProb_def americanToDecimal_def
          americanToImpliedProb_def not_le)
  qed
  show ?thesis
    using pos neg by (auto simp: americanToImpliedProb_def not_less order_less_le)
qed

theorem odds_round_trip_witness:
  "(150::rat) \<noteq> 0
   \<and> decimalToImpliedProb (americanToDecimal (Fin 150)) = americanToImpliedProb (Fin 150)
   \<and> americanToImpliedProb (Fin 150) = Fin (2 / 5)
   \<and> (-120::rat) < 0
   \<and> decimalToImpliedProb (americanToDecimal (Fin (-120))) = Fin (6 / 11)"
  using odds_round_trip [of 150] odds_round_trip [of "-120"] by simp

section \<open>Effects of the feed client\<close>

lemma storeOps_append: "storeOps (xs @ ys) = storeOps xs @ storeOps ys"
  by (induction xs rule: storeOps.induct) simp_all

lemma storeOps_map_Write: "storeOps (map Write ops) = ops"
  by (induction ops) simp_all

lemma storeOps_getOdds: "storeOps (snd (getOdds rt env params)) = []"
  by (simp add: getOdds_def Let_def split: sum.splits)

section \<open>Feed client: degraded mode comes first\<close>

text \<open>
  Claim C10. With no credential configured (the variable is absent, empty or blank),
  \<open>getOdds\<close> returns the degraded result with the warning for every input, also when
  the markets contain a player-prop market: it raises no error, logs nothing and sends
  no request.
\<close>

theorem getOdds_degraded:
  "getApikey env = [] \<Longrightarrow>
     getOdds rt env params =
       (Inr \<lparr>data = [], remaining = Fin 0, warning = Some notConfigured\<rparr>, [FeedCall ''getOdds''])"
  by (simp add: getOdds_def)

theorem getOdds_degraded_witness:
  "getApikey (sampleEnv (Some ''  '') []) = []
   \<and> list_ex isPlayerPropMarket [''player_points'']
   \<and> getOdds sampleRuntime (sampleEnv (Some ''  '') [])
        \<lparr>p_sport = ''nba'', p_regions = None, p_markets = Some [''player_points''], p_oddsFormat = None\<rparr>
      = (Inr \<lparr>data = [], remaining = Fin 0, warning = Some ''ODDS_API_KEY not configured''\<rparr>,
         [FeedCall ''getOdds''])"
proof -
  have k: "getApikey (sampleEnv (Some ''  '') []) = []"
    by (simp add: getApikey_def sampleEnv_def orStr_def trim_def isSpaceChar_def)
  have p: "list_ex isPlayerPropMarket [''player_points'']"
    by (simp add: isPlayerPropMarket_def startsWith_def toLowerCase_def toLowerChar_def)
  show ?thesis
    using k p getOdds_degraded [OF k, of sampleRuntime
        "\<lparr>p_sport = ''nba'', p_regions = None, p_markets = Some [''player_points''], p_oddsFormat = None\<rparr>"]
    by (simp add: notConfigured_def)
qed

text \<open>With a credential, the same request is rejected with \<open>INVALID_MARKET\<close>.\<close>

lemma getOdds_player_prop_rejected:
  "getApikey env \<noteq> [] \<Longrightarrow> p_markets params = Some ms \<Longrightarrow> list_ex isPlayerPropMarket ms \<Longrightarrow>
     fst (getOdds rt env params) = Inl invalidMarketError"
  by (simp add: getOdds_def Let_def)

section \<open>Arbitrage: unsupported markets\<close>

text \<open>
  Claim C3. For every call of \<open>getArbitrage\<close> with a market other than \<open>h2h\<close>, the
  operation throws the error with code \<open>UNSUPPORTED_MARKET\<close>, and nothing has happened
  before: no call of the feed client, no request, no log line.
\<close>

theorem getArbitrage_unsupported_market:
  "a_market params \<noteq> ''h2h'' \<Longrightarrow>
     getArbitrage rt env params = (Inl (unsupportedMarketError (a_market params)), [])
     \<and> err_code (unsupportedMarketError (a_market params)) = Some ''UNSUPPORTED_MARKET''"
  by (simp add: getArbitrage_def unsupportedMarketError_def Let_def)

theorem getArbitrage_unsupported_market_witness:
  "''totals'' \<noteq> ''h2h''
   \<and> getArbitrage sampleRuntime (sampleEnv (Some ''key'') [])
        \<lparr>a_sport = ''nba'', a_market = ''totals'', a_regions = None, a_oddsFormat = None, a_top = None\<rparr>
      = (Inl (unsupportedMarketError ''totals''), [])
   \<and> err_code (unsupportedMarketError ''totals'') = Some ''UNSUPPORTED_MARKET''"
  using getArbitrage_unsupported_market [of
      "\<lparr>a_sport = ''nba'', a_market = ''totals'', a_regions = None, a_oddsFormat = None, a_top = None\<rparr>"
      sampleRuntime "sampleEnv (Some ''key'') []"]
  by simp

section \<open>Ingestion: degraded mode\<close>

lemma sample_degraded: "getApikey (sampleEnv None []) = []"
  by (simp add: getApikey_def sampleEnv_def orStr_def trim_def)

lemma sample_configured: "getApikey (sampleEnv (Some ''key'') evs) = ''key''"
  by (simp add: getApikey_def sampleEnv_def orStr_def trim_def isSpaceChar_def)

lemma getOdds_warning_iff:
  "(\<exists>res es. getOdds rt env params = (Inr res, es) \<and> truthyStr (warning res)) \<longleftrightarrow> getApikey env = []"
  by (auto simp: getOdds_def Let_def truthyStr_def notConfigured_def split: sum.splits if_splits)

text \<open>
  Claim C1, as the code has it. Whenever \<open>getOdds\<close> reports a warning (it does exactly
  when no credential is configured), \<open>refreshOdds\<close> stops: it returns zero ingested
  snapshots and the remaining quota, the warning goes to the log and is not part of the
  returned value, and the only store write is the insert-if-absent of the Sport row,
  made before the feed call.
\<close>

theorem refreshOdds_degraded:
  assumes "getOdds rt env \<lparr>p_sport = r_sportKey params, p_regions = r_regions params,
              p_markets = r_markets params, p_oddsFormat = r_oddsFormat params\<rparr> = (Inr res, es)"
    and "warning res = Some w" and "w \<noteq> []"
  shows "refreshOdds rt env k params =
       (Inr \<lparr>ingestedSnapshots = 0, rr_remaining = remaining res\<rparr>,
        Write (SportSetOnInsert \<lparr>sp_id = makeSportIdFromKey (r_sportKey params),
                                 sp_name = r_sportKey params, sp_key = r_sportKey params\<rparr>)
          # es @ [LogWarn (''Odds ingestion skipped: '' @ w)],
        Suc k)
     \<and> storeOps (fst (snd (refreshOdds rt env k params))) =
         [SportSetOnInsert \<lparr>sp_id = makeSportIdFromKey (r_sportKey params),
                            sp_name = r_sportKey params, sp_key = r_sportKey params\<rparr>]
     \<and> runStore (fst (snd (refreshOdds rt env k params))) s =
         s\<lparr>sports := upsertSetOnInsert sp_id
                         \<lparr>sp_id = makeSportIdFromKey (r_sportKey params),
                          sp_name = r_sportKey params, sp_key = r_sportKey params\<rparr> (sports s)\<rparr>"
proof -
  have nofeed: "storeOps es = []" using storeOps_getOdds [of rt env] assms(1) by (metis snd_conv)
  have run: "refreshOdds rt env k params =
       (Inr \<lparr>ingestedSnapshots = 0, rr_remaining = remaining res\<rparr>,
        Write (SportSetOnInsert \<lparr>sp_id = makeSportIdFromKey (r_sportKey params),
                                 sp_name = r_sportKey params, sp_key = r_sportKey params\<rparr>)
          # es @ [LogWarn (''Odds ingestion skipped: '' @ w)],
        Suc k)"
    using assms by (simp add: refreshOdds_def Let_def truthyStr_def orStr_def)
  show ?thesis
    by (simp add: run storeOps_append nofeed runStore_def)
qed

theorem refreshOdds_degraded_witness:
  "getOdds sampleRuntime (sampleEnv None [])
       \<lparr>p_sport = r_sportKey sampleRefresh, p_regions = r_regions sampleRefresh,
        p_markets = r_markets sampleRefresh, p_oddsFormat = r_oddsFormat sampleRefresh\<rparr>
     = (Inr \<lparr>data = [], remaining = Fin 0, warning = Some ''ODDS_API_KEY not configured''\<rparr>,
        [FeedCall ''getOdds''])
   \<and> ''ODDS_API_KEY not configured'' \<noteq> []
   \<and> refreshOdds sampleRuntime (sampleEnv None []) 0 sampleRefresh =
       (Inr \<lparr>ingestedSnapshots = 0, rr_remaining = Fin 0\<rparr>,
        [Write (SportSetOnInsert \<lparr>sp_id = makeSportIdFromKey ''nba'', sp_name = ''nba'', sp_key = ''nba''\<rparr>),
         FeedCall ''getOdds'',
         LogWarn ''Odds ingestion skipped: ODDS_API_KEY not configured''],
        Suc 0)
   \<and> storeOps (fst (snd (refreshOdds sampleRuntime (sampleEnv None []) 0 sampleRefresh))) =
       [SportSetOnInsert \<lparr>sp_id = makeSportIdFromKey ''nba'', sp_name = ''nba'', sp_key = ''nba''\<rparr>]"
proof -
  have g: "getOdds sampleRuntime (sampleEnv None [])
       \<lparr>p_sport = r_sportKey sampleRefresh, p_regions = r_regions sampleRefresh,
        p_markets = r_markets sampleRefresh, p_oddsFormat = r_oddsFormat sampleRefresh\<rparr>
     = (Inr \<lparr>data = [], remaining = Fin 0, warning = Some ''ODDS_API_KEY not configured''\<rparr>,
        [FeedCall ''getOdds''])"
    by (simp add: getOdds_def sample_degraded notConfigured_def)
  have w: "warning \<lparr>data = ([] :: OddsApiEvent list), remaining = Fin 0,
                    warning = Some ''ODDS_API_KEY not configured''\<rparr>
             = Some ''ODDS_API_KEY not configured''" by simp
  have n: "''ODDS_API_KEY not configured'' \<noteq> []" by simp
  show ?thesis
    using g n refreshOdds_degraded [OF g w n, of 0] by (simp add: sampleRefresh_def)
qed

text \<open>
  The claim as stated fails: the value returned in degraded mode holds the count and the
  quota only. It is the very value returned against a configured provider that has no
  events and reports no warning, so the caller cannot read the warning from it.
\<close>

theorem refreshOdds_result_without_warning:
  "fst (getOdds sampleRuntime (sampleEnv None [])
          \<lparr>p_sport = ''nba'', p_regions = None, p_markets = None, p_oddsFormat = None\<rparr>)
     = Inr \<lparr>data = [], remaining = Fin 0, warning = Some ''ODDS_API_KEY not configured''\<rparr>
   \<and> fst (refreshOdds sampleRuntime (sampleEnv None []) 0 sampleRefresh)
       = Inr \<lparr>ingestedSnapshots = 0, rr_remaining = Fin 0\<rparr>
   \<and> fst (getOdds sampleRuntime (sampleEnv (Some ''key'') [])
          \<lparr>p_sport = ''nba'', p_regions = None, p_markets = None, p_oddsFormat = None\<rparr>)
     = Inr \<lparr>data = [], remaining = Fin 0, warning = None\<rparr>
   \<and> fst (refreshOdds sampleRuntime (sampleEnv (Some ''key'') []) 0 sampleRefresh)
       = Inr \<lparr>ingestedSnapshots = 0, rr_remaining = Fin 0\<rparr>"
proof -
  have up: "upstreamOdds (sampleEnv (Some ''key'') []) r
              = Inr \<lparr>resp_data = [], resp_requests_remaining = Some ''0''\<rparr>" for r
    by (simp add: sampleEnv_def)
  have nopp: "\<not> list_ex isPlayerPropMarket [''h2h'', ''spreads'', ''totals'']"
    by (simp add: isPlayerPropMarket_def startsWith_def toLowerCase_def toLowerChar_def)
  have g: "getOdds sampleRuntime (sampleEnv (Some ''key'') [])
             \<lparr>p_sport = ''nba'', p_regions = None, p_markets = None, p_oddsFormat = None\<rparr>
           = (Inr \<lparr>data = [], remaining = Fin 0, warning = None\<rparr>,
              [FeedCall ''getOdds'',
               HttpGet \<lparr>req_url = baseUrl (sampleEnv (Some ''key'') []) @ ''/sports/nba/odds'',
                        req_params = [(''apiKey'', ''key''), (''regions'', ''us''),
                                      (''markets'', ''h2h,spreads,totals''),
                                      (''oddsFormat'', ''american'')]\<rparr>])"
    using nopp by (simp add: getOdds_def sample_configured up Let_def remainingOf_def
        sampleRuntime_def orStr_def)
  have c: "fst (refreshOdds sampleRuntime (sampleEnv (Some ''key'') []) 0 sampleRefresh)
       = Inr \<lparr>ingestedSnapshots = 0, rr_remaining = Fin 0\<rparr>"
    by (simp add: refreshOdds_def sampleRefresh_def g Let_def truthyStr_def)
  have d: "getOdds sampleRuntime (sampleEnv None [])
             \<lparr>p_sport = ''nba'', p_regions = None, p_markets = None, p_oddsFormat = None\<rparr>
           = (Inr \<lparr>data = [], remaining = Fin 0, warning = Some notConfigured\<rparr>, [FeedCall ''getOdds''])"
    by (simp add: getOdds_def sample_degraded)
  have e: "fst (refreshOdds sampleRuntime (sampleEnv None []) 0 sampleRefresh)
       = Inr \<lparr>ingestedSnapshots = 0, rr_remaining = Fin 0\<rparr>"
    by (simp add: refreshOdds_def sampleRefresh_def d Let_def truthyStr_def notConfigured_def)
  show ?thesis using c e by (simp add: g d notConfigured_def)
qed

section \<open>Snapshot ids written by a run\<close>

lemma map_filter_append: "List.map_filter f (xs @ ys) = List.map_filter f xs @ List.map_filter f ys"
  by (simp add: List.map_filter_def)

lemma snapshotWrites_append: "snapshotWrites (a @ b) = snapshotWrites a @ snapshotWrites b"
  by (simp add: snapshotWrites_def map_filter_append)

lemma snapshotWrites_Cons:
  "snapshotWrites (w # ops) =
     (case w of OddsSnapshotSet r \<Rightarrow> r # snapshotWrites ops | _ \<Rightarrow> snapshotWrites ops)"
  by (cases w) (simp_all add: snapshotWrites_def)

lemma snapshotWrites_Nil: "snapshotWrites [] = []"
  by (simp add: snapshotWrites_def)

lemma upt_join: "i \<le> j \<Longrightarrow> j \<le> l \<Longrightarrow> [i ..< j] @ [j ..< l] = [i ..< l]"
  by (metis le_Suc_ex upt_add_eq_append)

lemma ids_join:
  "i \<le> i1 \<and> map h (snapshotWrites a) = map g [i ..< i1] \<Longrightarrow>
   i1 \<le> i2 \<and> map h (snapshotWrites b) = map g [i1 ..< i2] \<Longrightarrow>
   i \<le> (i2::nat) \<and> map h (snapshotWrites (a @ b)) = map g [i ..< i2]"
proof -
  assume a: "i \<le> i1 \<and> map h (snapshotWrites a) = map g [i ..< i1]"
    and b: "i1 \<le> i2 \<and> map h (snapshotWrites b) = map g [i1 ..< i2]"
  have "map g [i ..< i2] = map g [i ..< i1] @ map g [i1 ..< i2]"
    using upt_join [of i i1 i2] a b by (metis map_append)
  then show ?thesis using a b by (simp add: snapshotWrites_append)
qed

lemma ids_ingestOutcome:
  "ingestOutcome rt f t b m oc i = (ops, i') \<Longrightarrow>
     i' = Suc i \<and> map os_id (snapshotWrites ops) = [makeOddsSnapshotId t i]"
  by (auto simp: ingestOutcome_def Let_def snapshotWrites_Cons snapshotWrites_Nil)

lemma ids_ingestOutcomes:
  "ingestOutcomes rt f t b m ocs i = (ops, i') \<Longrightarrow>
     i \<le> i' \<and> map os_id (snapshotWrites ops) = map (makeOddsSnapshotId t) [i ..< i']"
proof (induction ocs arbitrary: i ops i')
  case Nil
  then show ?case by (simp add: snapshotWrites_Nil)
next
  case (Cons oc ocs)
  obtain ops1 i1 where s1: "ingestOutcome rt f t b m oc i = (ops1, i1)" by force
  obtain ops2 i2 where s2: "ingestOutcomes rt f t b m ocs i1 = (ops2, i2)" by force
  from Cons.prems s1 s2 have e: "ops = ops1 @ ops2" "i' = i2" by simp_all
  from ids_ingestOutcome [OF s1] have a: "i1 = Suc i"
    "map os_id (snapshotWrites ops1) = [makeOddsSnapshotId t i]" by simp_all
  from Cons.IH [OF s2] have b: "i1 \<le> i2"
    "map os_id (snapshotWrites ops2) = map (makeOddsSnapshotId t) [i1 ..< i2]" by simp_all
  have "[i ..< i2] = i # [i1 ..< i2]" using a(1) b(1) by (simp add: upt_conv_Cons)
  then show ?case using e a b by (simp add: snapshotWrites_append)
qed

lemma ids_ingestMarket:
  "ingestMarket rt f t e b bk lu mk i = (ops, i') \<Longrightarrow>
     i \<le> i' \<and> map os_id (snapshotWrites ops) = map (makeOddsSnapshotId t) [i ..< i']"
  by (auto simp: ingestMarket_def Let_def snapshotWrites_Cons split: prod.splits
      dest: ids_ingestOutcomes)

lemma ids_ingestMarkets:
  "ingestMarkets rt f t e b bk lu mks i = (ops, i') \<Longrightarrow>
     i \<le> i' \<and> map os_id (snapshotWrites ops) = map (makeOddsSnapshotId t) [i ..< i']"
proof (induction mks arbitrary: i ops i')
  case Nil
  then show ?case by (simp add: snapshotWrites_Nil)
next
  case (Cons mk mks)
  obtain ops1 i1 where s1: "ingestMarket rt f t e b bk lu mk i = (ops1, i1)" by force
  obtain ops2 i2 where s2: "ingestMarkets rt f t e b bk lu mks i1 = (ops2, i2)" by force
  from Cons.prems s1 s2 have e: "ops = ops1 @ ops2" "i' = i2" by simp_all
  from ids_join [OF ids_ingestMarket [OF s1] Cons.IH [OF s2]] show ?case
    using e by simp
qed

lemma ids_ingestBookmaker:
  "ingestBookmaker rt f t e bm i = (ops, i') \<Longrightarrow>
     i \<le> i' \<and> map os_id (snapshotWrites ops) = map (makeOddsSnapshotId t) [i ..< i']"
  by (auto simp: ingestBookmaker_def Let_def snapshotWrites_Cons split: prod.splits
      dest: ids_ingestMarkets)

lemma ids_ingestBookmakers:
  "ingestBookmakers rt f t e bms i = (ops, i') \<Longrightarrow>
     i \<le> i' \<and> map os_id (snapshotWrites ops) = map (makeOddsSnapshotId t) [i ..< i']"
proof (induction bms arbitrary: i ops i')
  case Nil
  then show ?case by (simp add: snapshotWrites_Nil)
next
  case (Cons bm bms)
  obtain ops1 i1 where s1: "ingestBookmaker rt f t e bm i = (ops1, i1)" by force
  obtain ops2 i2 where s2: "ingestBookmakers rt f t e bms i1 = (ops2, i2)" by force
  from Cons.prems s1 s2 have e: "ops = ops1 @ ops2" "i' = i2" by simp_all
  from ids_join [OF ids_ingestBookmaker [OF s1] Cons.IH [OF s2]] show ?case
    using e by simp
qed

lemma ids_ingestEvent:
  "ingestEvent rt f t sk sid ev (i, k) = (ops, i', k') \<Longrightarrow>
     i \<le> i' \<and> map os_id (snapshotWrites ops) = map (makeOddsSnapshotId t) [i ..< i']"
  by (auto simp: ingestEvent_def Let_def snapshotWrites_Cons split: prod.splits
      dest: ids_ingestBookmakers)

lemma ids_ingestEvents:
  "ingestEvents rt f t sk sid evs (i, k) = (ops, i', k') \<Longrightarrow>
     i \<le> i' \<and> map os_id (snapshotWrites ops) = map (makeOddsSnapshotId t) [i ..< i']"
proof (induction evs arbitrary: i k ops i' k')
  case Nil
  then show ?case by (simp add: snapshotWrites_Nil)
next
  case (Cons ev evs)
  obtain ops1 i1 k1 where s1: "ingestEvent rt f t sk sid ev (i, k) = (ops1, i1, k1)"
    by (metis prod_cases3)
  obtain ops2 i2 k2 where s2: "ingestEvents rt f t sk sid evs (i1, k1) = (ops2, i2, k2)"
    by (metis prod_cases3)
  from Cons.prems s1 s2 have e: "ops = ops1 @ ops2" "i' = i2" by simp_all
  from ids_join [OF ids_ingestEvent [OF s1] Cons.IH [OF s2]] show ?case
    using e by simp
qed

lemma snapshotIds_refreshOdds:
  "refreshOdds rt env k params = (Inr res, es, k') \<Longrightarrow>
     snapshotIds es = map (makeOddsSnapshotId (dateNow rt k)) [0 ..< ingestedSnapshots res]"
proof -
  assume run: "refreshOdds rt env k params = (Inr res, es, k')"
  obtain r fes where g: "getOdds rt env \<lparr>p_sport = r_sportKey params, p_regions = r_regions params,
      p_markets = r_markets params, p_oddsFormat = r_oddsFormat params\<rparr> = (r, fes)" by force
  have nofeed: "storeOps fes = []" using storeOps_getOdds [of rt env] g by (metis snd_conv)
  show ?thesis
  proof (cases r)
    case (Inl e)
    with run g show ?thesis by (simp add: refreshOdds_def Let_def)
  next
    case (Inr fr)
    show ?thesis
    proof (cases "truthyStr (warning fr)")
      case True
      with run g Inr nofeed show ?thesis
        by (auto simp: refreshOdds_def Let_def snapshotIds_def storeOps_append
            snapshotWrites_Cons snapshotWrites_Nil)
    next
      case False
      obtain ops i1 k1 where ie: "ingestEvents rt (r_oddsFormat params) (dateNow rt k)
          (r_sportKey params) (makeSportIdFromKey (r_sportKey params)) (data fr) (0, Suc k) = (ops, i1, k1)"
        by (metis prod_cases3)
      from run g Inr False ie have "res = \<lparr>ingestedSnapshots = i1, rr_remaining = remaining fr\<rparr>"
        and "storeOps es = SportSetOnInsert \<lparr>sp_id = makeSportIdFromKey (r_sportKey params),
              sp_name = r_sportKey params, sp_key = r_sportKey params\<rparr> # ops"
        using nofeed by (auto simp: refreshOdds_def Let_def storeOps_append storeOps_map_Write)
      with ids_ingestEvents [OF ie] show ?thesis
        by (simp add: snapshotIds_def snapshotWrites_Cons)
    qed
  qed
qed

section \<open>Upserts: writing the same rows again changes nothing\<close>

lemma ids_upsertSet: "idf ` set (upsertSet idf r xs) = insert (idf r) (idf ` set xs)"
  by (induction xs) auto

lemma find_upsertSet:
  "find (\<lambda>x. idf x = k) (upsertSet idf r xs) =
     (if idf r = k then Some r else find (\<lambda>x. idf x = k) xs)"
  by (induction xs) auto

lemma upsertSet_fixed: "find (\<lambda>x. idf x = idf w) xs = Some w \<Longrightarrow> upsertSet idf w xs = xs"
  by (induction xs) (auto split: if_splits)

lemma upsertSet_absorb: "idf v = idf w \<Longrightarrow> upsertSet idf v (upsertSet idf w xs) = upsertSet idf v xs"
  by (induction xs) auto

lemma upsertSet_commute:
  "idf v \<noteq> idf w \<Longrightarrow> idf w \<in> idf ` set xs \<Longrightarrow>
     upsertSet idf v (upsertSet idf w xs) = upsertSet idf w (upsertSet idf v xs)"
  by (induction xs) auto

lemma ids_fold_upsertSet:
  "idf ` set (fold (upsertSet idf) ws xs) = idf ` set ws \<union> idf ` set xs"
  by (induction ws arbitrary: xs) (auto simp: ids_upsertSet)

lemma fold_upsertSet_absorb:
  "idf w \<in> idf ` set xs \<Longrightarrow> idf w \<in> idf ` set ws \<Longrightarrow>
     fold (upsertSet idf) ws (upsertSet idf w xs) = fold (upsertSet idf) ws xs"
proof (induction ws arbitrary: xs)
  case Nil
  then show ?case by simp
next
  case (Cons v ws)
  show ?case
  proof (cases "idf v = idf w")
    case True
    then show ?thesis by (simp add: upsertSet_absorb)
  next
    case False
    with Cons.prems have in_ws: "idf w \<in> idf ` set ws" by auto
    have present: "idf w \<in> idf ` set (upsertSet idf v xs)"
      using Cons.prems(1) by (simp add: ids_upsertSet)
    have "upsertSet idf v (upsertSet idf w xs) = upsertSet idf w (upsertSet idf v xs)"
      using False Cons.prems(1) by (rule upsertSet_commute)
    then show ?thesis using Cons.IH [OF present in_ws] by simp
  qed
qed

lemma find_fold_upsertSet:
  "k \<notin> idf ` set ws \<Longrightarrow>
     find (\<lambda>x. idf x = k) (fold (upsertSet idf) ws xs) = find (\<lambda>x. idf x = k) xs"
  by (induction ws arbitrary: xs) (auto simp: find_upsertSet)

lemma fold_upsertSet_idem:
  "fold (upsertSet idf) ws (fold (upsertSet idf) ws xs) = fold (upsertSet idf) ws xs"
proof (induction ws arbitrary: xs)
  case Nil
  then show ?case by simp
next
  case (Cons w ws)
  define ys where "ys = fold (upsertSet idf) ws (upsertSet idf w xs)"
  have ih: "fold (upsertSet idf) ws ys = ys" unfolding ys_def by (rule Cons.IH)
  have present: "idf w \<in> idf ` set ys"
    unfolding ys_def by (simp add: ids_fold_upsertSet ids_upsertSet)
  have "fold (upsertSet idf) ws (upsertSet idf w ys) = ys"
  proof (cases "idf w \<in> idf ` set ws")
    case True
    from fold_upsertSet_absorb [OF present True] ih show ?thesis by simp
  next
    case False
    have "find (\<lambda>x. idf x = idf w) ys = Some w"
      unfolding ys_def using False by (simp add: find_fold_upsertSet find_upsertSet)
    then have "upsertSet idf w ys = ys" by (rule upsertSet_fixed)
    with ih show ?thesis by simp
  qed
  then show ?case by (simp add: ys_def)
qed

lemma map_upsertSet:
  "(\<And>x. idf (h x) = idf x) \<Longrightarrow> map h (upsertSet idf r xs) = upsertSet idf (h r) (map h xs)"
  by (induction xs) auto

lemma map_fold_upsertSet:
  "(\<And>x. idf (h x) = idf x) \<Longrightarrow>
     map h (fold (upsertSet idf) ws xs) = fold (upsertSet idf) (map h ws) (map h xs)"
  by (induction ws arbitrary: xs) (simp_all add: map_upsertSet)

lemma fold_upsertSet_twice_modulo:
  assumes "\<And>x. idf (h x) = idf x" and "map h ws' = map h ws"
  shows "map h (fold (upsertSet idf) ws' (fold (upsertSet idf) ws xs))
           = map h (fold (upsertSet idf) ws xs)"
proof -
  have m: "map h (fold (upsertSet idf) vs zs) = fold (upsertSet idf) (map h vs) (map h zs)" for vs zs
    using assms(1) by (rule map_fold_upsertSet)
  show ?thesis by (simp add: m assms(2) fold_upsertSet_idem)
qed

lemma ids_fold_setOnInsert:
  "idf ` set (fold (upsertSetOnInsert idf) ws xs) = idf ` set ws \<union> idf ` set xs"
  by (induction ws arbitrary: xs) (auto simp: upsertSetOnInsert_def)

lemma fold_setOnInsert_present:
  "idf ` set ws \<subseteq> idf ` set xs \<Longrightarrow> fold (upsertSetOnInsert idf) ws xs = xs"
  by (induction ws arbitrary: xs) (auto simp: upsertSetOnInsert_def)

lemma fold_setOnInsert_idem:
  "fold (upsertSetOnInsert idf) ws (fold (upsertSetOnInsert idf) ws xs)
     = fold (upsertSetOnInsert idf) ws xs"
  by (rule fold_setOnInsert_present) (simp add: ids_fold_setOnInsert)

section \<open>The store after a list of writes, collection by collection\<close>

lemma sports_fold_applyOp:
  "sports (fold applyOp ops s) = fold (upsertSetOnInsert sp_id) (sportWrites ops) (sports s)"
proof (induction ops arbitrary: s)
  case Nil
  then show ?case by (simp add: sportWrites_def)
next
  case (Cons w ops)
  then show ?case by (cases w) (simp_all add: sportWrites_def)
qed

lemma teams_fold_applyOp:
  "teams (fold applyOp ops s) = fold (upsertSetOnInsert tm_id) (teamWrites ops) (teams s)"
proof (induction ops arbitrary: s)
  case Nil
  then show ?case by (simp add: teamWrites_def)
next
  case (Cons w ops)
  then show ?case by (cases w) (simp_all add: teamWrites_def)
qed

lemma sportEvents_fold_applyOp:
  "sportEvents (fold applyOp ops s) = fold (upsertSet se_id) (eventWrites ops) (sportEvents s)"
proof (induction ops arbitrary: s)
  case Nil
  then show ?case by (simp add: eventWrites_def)
next
  case (Cons w ops)
  then show ?case by (cases w) (simp_all add: eventWrites_def)
qed

lemma sportsbooks_fold_applyOp:
  "sportsbooks (fold applyOp ops s) = fold (upsertSet sb_id) (bookWrites ops) (sportsbooks s)"
proof (induction ops arbitrary: s)
  case Nil
  then show ?case by (simp add: bookWrites_def)
next
  case (Cons w ops)
  then show ?case by (cases w) (simp_all add: bookWrites_def)
qed

lemma markets_fold_applyOp:
  "markets (fold applyOp ops s) = fold (upsertSet mr_id) (marketWrites ops) (markets s)"
proof (induction ops arbitrary: s)
  case Nil
  then show ?case by (simp add: marketWrites_def)
next
  case (Cons w ops)
  then show ?case by (cases w) (simp_all add: marketWrites_def)
qed

lemma marketSelections_fold_applyOp:
  "marketSelections (fold applyOp ops s)
     = fold (upsertSet ms_id) (selectionWrites ops) (marketSelections s)"
proof (induction ops arbitrary: s)
  case Nil
  then show ?case by (simp add: selectionWrites_def)
next
  case (Cons w ops)
  then show ?case by (cases w) (simp_all add: selectionWrites_def)
qed

section \<open>Two runs write the same rows, time stamps and snapshot ids apart\<close>

lemma strip_ingestOutcome:
  "map stripOp (fst (ingestOutcome rt f t b m oc i)) = map stripOp (fst (ingestOutcome rt f t' b m oc i'))"
  by (simp add: ingestOutcome_def Let_def)

lemma strip_ingestOutcomes:
  "map stripOp (fst (ingestOutcomes rt f t b m ocs i))
     = map stripOp (fst (ingestOutcomes rt f t' b m ocs i'))"
proof (induction ocs arbitrary: i i')
  case Nil
  then show ?case by simp
next
  case (Cons oc ocs)
  show ?case
    using strip_ingestOutcome [of rt f t b m oc i t' i']
      Cons.IH [of "snd (ingestOutcome rt f t b m oc i)" "snd (ingestOutcome rt f t' b m oc i')"]
    by (simp add: case_prod_beta)
qed

lemma strip_ingestMarket:
  "map stripOp (fst (ingestMarket rt f t e b bk lu mk i))
     = map stripOp (fst (ingestMarket rt f t' e b bk lu mk i'))"
  using strip_ingestOutcomes [of rt f t b _ "mk_outcomes mk" i t' i']
  by (simp add: ingestMarket_def Let_def case_prod_beta)

lemma strip_ingestMarkets:
  "map stripOp (fst (ingestMarkets rt f t e b bk lu mks i))
     = map stripOp (fst (ingestMarkets rt f t' e b bk lu mks i'))"
proof (induction mks arbitrary: i i')
  case Nil
  then show ?case by simp
next
  case (Cons mk mks)
  show ?case
    using strip_ingestMarket [of rt f t e b bk lu mk i t' i']
      Cons.IH [of "snd (ingestMarket rt f t e b bk lu mk i)" "snd (ingestMarket rt f t' e b bk lu mk i')"]
    by (simp add: case_prod_beta)
qed

lemma strip_ingestBookmaker:
  "map stripOp (fst (ingestBookmaker rt f t e bm i))
     = map stripOp (fst (ingestBookmaker rt f t' e bm i'))"
  using strip_ingestMarkets [of rt f t e _ _ _ "bm_markets bm" i t' i']
  by (simp add: ingestBookmaker_def Let_def case_prod_beta)

lemma strip_ingestBookmakers:
  "map stripOp (fst (ingestBookmakers rt f t e bms i))
     = map stripOp (fst (ingestBookmakers rt f t' e bms i'))"
proof (induction bms arbitrary: i i')
  case Nil
  then show ?case by simp
next
  case (Cons bm bms)
  show ?case
    using strip_ingestBookmaker [of rt f t e bm i t' i']
      Cons.IH [of "snd (ingestBookmaker rt f t e bm i)" "snd (ingestBookmaker rt f t' e bm i')"]
    by (simp add: case_prod_beta)
qed

lemma strip_ingestEvent:
  "map stripOp (fst (ingestEvent rt f t sk sid ev st))
     = map stripOp (fst (ingestEvent rt f t' sk sid ev st'))"
  using strip_ingestBookmakers [of rt f t _ "ev_bookmakers ev" "fst st" t' "fst st'"]
  by (simp add: ingestEvent_def Let_def case_prod_beta stripEvent_def)

lemma strip_ingestEvents:
  "map stripOp (fst (ingestEvents rt f t sk sid evs st))
     = map stripOp (fst (ingestEvents rt f t' sk sid evs st'))"
proof (induction evs arbitrary: st st')
  case Nil
  then show ?case by simp
next
  case (Cons ev evs)
  show ?case
    using strip_ingestEvent [of rt f t sk sid ev st t' st']
      Cons.IH [of "snd (ingestEvent rt f t sk sid ev st)" "snd (ingestEvent rt f t' sk sid ev st')"]
    by (simp add: case_prod_beta)
qed

lemma views_of_stripped:
  "sportWrites (map stripOp ops) = sportWrites ops"
  "teamWrites (map stripOp ops) = teamWrites ops"
  "bookWrites (map stripOp ops) = bookWrites ops"
  "marketWrites (map stripOp ops) = marketWrites ops"
  "selectionWrites (map stripOp ops) = selectionWrites ops"
  "eventWrites (map stripOp ops) = map stripEvent (eventWrites ops)"
  "length (snapshotWrites (map stripOp ops)) = length (snapshotWrites ops)"
proof (induction ops)
  case Nil
  {
    case 1 show ?case by simp
  next
    case 2 show ?case by simp
  next
    case 3 show ?case by simp
  next
    case 4 show ?case by simp
  next
    case 5 show ?case by simp
  next
    case 6 show ?case by (simp add: eventWrites_def)
  next
    case 7 show ?case by simp
  }
next
  case (Cons w ops)
  {
    case 1 with Cons show ?case by (cases w) (simp_all add: sportWrites_def)
  next
    case 2 with Cons show ?case by (cases w) (simp_all add: teamWrites_def)
  next
    case 3 with Cons show ?case by (cases w) (simp_all add: bookWrites_def)
  next
    case 4 with Cons show ?case by (cases w) (simp_all add: marketWrites_def)
  next
    case 5 with Cons show ?case by (cases w) (simp_all add: selectionWrites_def)
  next
    case 6 with Cons show ?case by (cases w) (simp_all add: eventWrites_def)
  next
    case 7 with Cons show ?case by (cases w) (simp_all add: snapshotWrites_def)
  }
qed

lemma snapshotWrites_length_stripped:
  "map stripOp a = map stripOp b \<Longrightarrow> length (snapshotWrites a) = length (snapshotWrites b)"
  by (metis views_of_stripped(7))

lemma refreshOdds_success:
  assumes "refreshOdds rt env k params = (Inr res, es, k')"
  obtains fr fes ops where
    "getOdds rt env \<lparr>p_sport = r_sportKey params, p_regions = r_regions params,
        p_markets = r_markets params, p_oddsFormat = r_oddsFormat params\<rparr> = (Inr fr, fes)"
    "storeOps es = SportSetOnInsert \<lparr>sp_id = makeSportIdFromKey (r_sportKey params),
        sp_name = r_sportKey params, sp_key = r_sportKey params\<rparr> # ops"
    "res = \<lparr>ingestedSnapshots = length (snapshotWrites ops), rr_remaining = remaining fr\<rparr>"
    "map stripOp ops =
       (if truthyStr (warning fr) then []
        else map stripOp (fst (ingestEvents rt (r_oddsFormat params) 0 (r_sportKey params)
               (makeSportIdFromKey (r_sportKey params)) (data fr) (0, 0))))"
proof -
  obtain r fes where g: "getOdds rt env \<lparr>p_sport = r_sportKey params, p_regions = r_regions params,
      p_markets = r_markets params, p_oddsFormat = r_oddsFormat params\<rparr> = (r, fes)" by force
  have nofeed: "storeOps fes = []" using storeOps_getOdds [of rt env] g by (metis snd_conv)
  show ?thesis
  proof (cases r)
    case (Inl e)
    with assms g show ?thesis by (simp add: refreshOdds_def Let_def)
  next
    case (Inr fr)
    show ?thesis
    proof (cases "truthyStr (warning fr)")
      case True
      with assms g Inr nofeed have
        "storeOps es = [SportSetOnInsert \<lparr>sp_id = makeSportIdFromKey (r_sportKey params),
            sp_name = r_sportKey params, sp_key = r_sportKey params\<rparr>]"
        "res = \<lparr>ingestedSnapshots = 0, rr_remaining = remaining fr\<rparr>"
        by (auto simp: refreshOdds_def Let_def storeOps_append)
      with that [of fr fes "[]"] g Inr True show ?thesis by (simp add: snapshotWrites_Nil)
    next
      case False
      obtain ops i1 k1 where ie: "ingestEvents rt (r_oddsFormat params) (dateNow rt k)
          (r_sportKey params) (makeSportIdFromKey (r_sportKey params)) (data fr) (0, Suc k) = (ops, i1, k1)"
        by (metis prod_cases3)
      from assms g Inr False ie have r: "res = \<lparr>ingestedSnapshots = i1, rr_remaining = remaining fr\<rparr>"
        and so: "storeOps es = SportSetOnInsert \<lparr>sp_id = makeSportIdFromKey (r_sportKey params),
              sp_name = r_sportKey params, sp_key = r_sportKey params\<rparr> # ops"
        using nofeed by (auto simp: refreshOdds_def Let_def storeOps_append storeOps_map_Write)
      from ids_ingestEvents [OF ie] have "length (snapshotWrites ops) = i1"
        by (metis diff_zero length_map length_upt)
      with r have r': "res = \<lparr>ingestedSnapshots = length (snapshotWrites ops), rr_remaining = remaining fr\<rparr>"
        by simp
      have "map stripOp ops = map stripOp (fst (ingestEvents rt (r_oddsFormat params) 0 (r_sportKey params)
               (makeSportIdFromKey (r_sportKey params)) (data fr) (0, 0)))"
        using strip_ingestEvents [of rt "r_oddsFormat params" "dateNow rt k" "r_sportKey params"
            "makeSportIdFromKey (r_sportKey params)" "data fr" "(0, Suc k)" 0 "(0, 0)"] ie
        by simp
      with that [of fr fes ops] g Inr False so r' show ?thesis by simp
    qed
  qed
qed

lemma refreshOdds_succeeds_again:
  assumes "refreshOdds rt env k params = (Inr res, es, k')"
  shows "\<exists>res2. fst (refreshOdds rt env j params) = Inr res2"
proof -
  from assms obtain fr fes where "getOdds rt env \<lparr>p_sport = r_sportKey params, p_regions = r_regions params,
        p_markets = r_markets params, p_oddsFormat = r_oddsFormat params\<rparr> = (Inr fr, fes)"
    by (rule refreshOdds_success)
  then show ?thesis by (simp add: refreshOdds_def Let_def case_prod_beta)
qed

lemma refreshOdds_same_writes:
  assumes run1: "refreshOdds rt env k params = (Inr r1, es1, k1)"
    and run2: "refreshOdds rt env j params = (r2, es2, k2)"
  shows "r2 = Inr r1 \<and> map stripOp (storeOps es2) = map stripOp (storeOps es1)"
proof -
  from refreshOdds_succeeds_again [OF run1, of j] run2 obtain r2' where r2: "r2 = Inr r2'" by auto
  from run1 obtain fr fes ops where a:
    "getOdds rt env \<lparr>p_sport = r_sportKey params, p_regions = r_regions params,
        p_markets = r_markets params, p_oddsFormat = r_oddsFormat params\<rparr> = (Inr fr, fes)"
    "storeOps es1 = SportSetOnInsert \<lparr>sp_id = makeSportIdFromKey (r_sportKey params),
        sp_name = r_sportKey params, sp_key = r_sportKey params\<rparr> # ops"
    "r1 = \<lparr>ingestedSnapshots = length (snapshotWrites ops), rr_remaining = remaining fr\<rparr>"
    "map stripOp ops =
       (if truthyStr (warning fr) then []
        else map stripOp (fst (ingestEvents rt (r_oddsFormat params) 0 (r_sportKey params)
               (makeSportIdFromKey (r_sportKey params)) (data fr) (0, 0))))"
    by (rule refreshOdds_success)
  from run2 [unfolded r2] obtain fr' fes' ops' where b:
    "getOdds rt env \<lparr>p_sport = r_sportKey params, p_regions = r_regions params,
        p_markets = r_markets params, p_oddsFormat = r_oddsFormat params\<rparr> = (Inr fr', fes')"
    "storeOps es2 = SportSetOnInsert \<lparr>sp_id = makeSportIdFromKey (r_sportKey params),
        sp_name = r_sportKey params, sp_key = r_sportKey params\<rparr> # ops'"
    "r2' = \<lparr>ingestedSnapshots = length (snapshotWrites ops'), rr_remaining = remaining fr'\<rparr>"
    "map stripOp ops' =
       (if truthyStr (warning fr') then []
        else map stripOp (fst (ingestEvents rt (r_oddsFormat params) 0 (r_sportKey params)
               (makeSportIdFromKey (r_sportKey params)) (data fr') (0, 0))))"
    by (rule refreshOdds_success)
  from a(1) b(1) have same: "fr' = fr" by simp
  with a(4) b(4) have ops: "map stripOp ops' = map stripOp ops" by simp
  then have "length (snapshotWrites ops') = length (snapshotWrites ops)"
    by (rule snapshotWrites_length_stripped)
  with a(3) b(3) same have "r2' = r1" by simp
  with r2 ops a(2) b(2) show ?thesis by simp
qed

section \<open>Arithmetic of the snapshot ids\<close>

lemma distinct_batch_ids: "distinct (map (makeOddsSnapshotId t) [0 ..< n])"
  by (simp add: distinct_map inj_on_def makeOddsSnapshotId_def)

lemma batches_apart:
  "t1 \<noteq> t2 \<Longrightarrow> i < 1000 \<Longrightarrow> j < 1000 \<Longrightarrow> makeOddsSnapshotId t1 i \<noteq> makeOddsSnapshotId t2 j"
  unfolding makeOddsSnapshotId_def by arith

lemma batch_ids_disjoint_iff:
  "set (map (makeOddsSnapshotId t1) [0 ..< n]) \<inter> set (map (makeOddsSnapshotId t2) [0 ..< n]) = {}
     \<longleftrightarrow> (n = 0 \<or> int n \<le> 1000 * \<bar>t1 - t2\<bar>)"
proof
  assume disj: "set (map (makeOddsSnapshotId t1) [0 ..< n]) \<inter> set (map (makeOddsSnapshotId t2) [0 ..< n]) = {}"
  show "n = 0 \<or> int n \<le> 1000 * \<bar>t1 - t2\<bar>"
  proof (rule ccontr)
    assume "\<not> (n = 0 \<or> int n \<le> 1000 * \<bar>t1 - t2\<bar>)"
    then have n: "0 < n" "1000 * \<bar>t1 - t2\<bar> < int n" by simp_all
    define d where "d = nat (1000 * \<bar>t1 - t2\<bar>)"
    have dn: "d < n" "int d = 1000 * \<bar>t1 - t2\<bar>" using n by (simp_all add: d_def)
    have "\<exists>i j. i < n \<and> j < n \<and> makeOddsSnapshotId t1 i = makeOddsSnapshotId t2 j"
    proof (cases "t2 \<le> t1")
      case True
      then have "makeOddsSnapshotId t1 0 = makeOddsSnapshotId t2 d"
        using dn(2) by (simp add: makeOddsSnapshotId_def)
      with n(1) dn(1) show ?thesis by blast
    next
      case False
      then have "makeOddsSnapshotId t1 d = makeOddsSnapshotId t2 0"
        using dn(2) by (simp add: makeOddsSnapshotId_def)
      with n(1) dn(1) show ?thesis by blast
    qed
    then obtain i j where ij: "i < n" "j < n" "makeOddsSnapshotId t1 i = makeOddsSnapshotId t2 j"
      by blast
    have "makeOddsSnapshotId t1 i \<in> set (map (makeOddsSnapshotId t1) [0 ..< n])"
      using ij(1) by simp
    moreover have "makeOddsSnapshotId t2 j \<in> set (map (makeOddsSnapshotId t2) [0 ..< n])"
      using ij(2) by simp
    ultimately show False using disj ij(3) by auto
  qed
next
  assume c: "n = 0 \<or> int n \<le> 1000 * \<bar>t1 - t2\<bar>"
  show "set (map (makeOddsSnapshotId t1) [0 ..< n]) \<inter> set (map (makeOddsSnapshotId t2) [0 ..< n]) = {}"
  proof (rule ccontr)
    assume "set (map (makeOddsSnapshotId t1) [0 ..< n]) \<inter> set (map (makeOddsSnapshotId t2) [0 ..< n]) \<noteq> {}"
    then obtain i j where ij: "i < n" "j < n" "makeOddsSnapshotId t1 i = makeOddsSnapshotId t2 j"
      by auto
    then have e: "(t1 - t2) * 1000 = int j - int i" by (simp add: makeOddsSnapshotId_def algebra_simps)
    have "1000 * \<bar>t1 - t2\<bar> = \<bar>(t1 - t2) * 1000\<bar>"
      by (simp only: abs_mult abs_numeral mult.commute)
    also have "\<dots> = \<bar>int j - int i\<bar>" by (simp only: e)
    also have "\<dots> < int n" using ij by linarith
    finally show False using c ij(1) by simp
  qed
qed

section \<open>The sample run\<close>

lemma sample_getOdds:
  "parseInt rt ''0'' = Fin 0 \<Longrightarrow>
   getOdds rt (sampleEnv (Some ''key'') evs)
     \<lparr>p_sport = ''nba'', p_regions = None, p_markets = None, p_oddsFormat = None\<rparr>
   = (Inr \<lparr>data = evs, remaining = Fin 0, warning = None\<rparr>,
      [FeedCall ''getOdds'',
       HttpGet \<lparr>req_url = ''https://api.the-odds-api.com/v4/sports/nba/odds'',
                req_params = [(''apiKey'', ''key''), (''regions'', ''us''),
                              (''markets'', ''h2h,spreads,totals''),
                              (''oddsFormat'', ''american'')]\<rparr>])"
proof -
  assume p: "parseInt rt ''0'' = Fin 0"
  have up: "upstreamOdds (sampleEnv (Some ''key'') evs) r
              = Inr \<lparr>resp_data = evs, resp_requests_remaining = Some ''0''\<rparr>" for r
    by (simp add: sampleEnv_def)
  have nopp: "\<not> list_ex isPlayerPropMarket [''h2h'', ''spreads'', ''totals'']"
    by (simp add: isPlayerPropMarket_def startsWith_def toLowerCase_def toLowerChar_def)
  have b: "baseUrl (sampleEnv (Some ''key'') evs) = ''https://api.the-odds-api.com/v4''"
    by (simp add: baseUrl_def sampleEnv_def orStr_def)
  show ?thesis
    using nopp p by (simp add: getOdds_def sample_configured up b Let_def remainingOf_def orStr_def)
qed

lemma sample_run:
  "parseInt rt ''0'' = Fin 0 \<Longrightarrow>
   fst (refreshOdds rt (sampleEnv (Some ''key'') sampleFeed) k sampleRefresh)
     = Inr \<lparr>ingestedSnapshots = 2, rr_remaining = Fin 0\<rparr>
   \<and> snd (snd (refreshOdds rt (sampleEnv (Some ''key'') sampleFeed) k sampleRefresh)) = Suc k"
  by (simp add: refreshOdds_def sampleRefresh_def sample_getOdds Let_def truthyStr_def
      sampleFeed_def sampleEvent_def sampleBookmaker_def sampleOutcome_def
      ingestEvent_def ingestBookmaker_def ingestMarket_def ingestOutcome_def case_prod_beta)

lemma sample_parseInt: "parseInt sampleRuntime s = Fin 0" "parseInt frozenRuntime s = Fin 0"
  by (simp_all add: sampleRuntime_def frozenRuntime_def)

section \<open>Snapshot ids\<close>

text \<open>
  Claim C8. The snapshot rows a run of \<open>refreshOdds\<close> writes carry the ids
  \<open>batchEpochMs * 1000 + i\<close> for the sequence indices \<open>i = 0, 1, \<dots>\<close> below the number of
  ingested snapshots, and these are pairwise distinct; ids of two batches with different
  time stamps differ whenever both sequence indices are below 1000. (Numbers are exact
  integers here; the ids stay below \<open>2^53\<close> for every realistic clock.)
\<close>

theorem snapshot_ids_do_not_collide:
  "(refreshOdds rt env k params = (Inr res, es, k') \<longrightarrow>
      snapshotIds es = map (makeOddsSnapshotId (dateNow rt k)) [0 ..< ingestedSnapshots res]
      \<and> distinct (snapshotIds es))
   \<and> (i \<noteq> j \<longrightarrow> makeOddsSnapshotId t i \<noteq> makeOddsSnapshotId t j)
   \<and> (t1 \<noteq> t2 \<and> i < 1000 \<and> j < 1000 \<longrightarrow> makeOddsSnapshotId t1 i \<noteq> makeOddsSnapshotId t2 j)"
proof (intro conjI impI)
  assume run: "refreshOdds rt env k params = (Inr res, es, k')"
  show "snapshotIds es = map (makeOddsSnapshotId (dateNow rt k)) [0 ..< ingestedSnapshots res]"
    using run by (rule snapshotIds_refreshOdds)
  then show "distinct (snapshotIds es)" by (simp only: distinct_batch_ids)
next
  assume "i \<noteq> j"
  then show "makeOddsSnapshotId t i \<noteq> makeOddsSnapshotId t j" by (simp add: makeOddsSnapshotId_def)
next
  assume "t1 \<noteq> t2 \<and> i < 1000 \<and> j < 1000"
  then show "makeOddsSnapshotId t1 i \<noteq> makeOddsSnapshotId t2 j" using batches_apart by blast
qed

theorem snapshot_ids_do_not_collide_witness:
  "fst (refreshOdds sampleRuntime (sampleEnv (Some ''key'') sampleFeed) 0 sampleRefresh)
     = Inr \<lparr>ingestedSnapshots = 2, rr_remaining = Fin 0\<rparr>
   \<and> snapshotIds (fst (snd (refreshOdds sampleRuntime (sampleEnv (Some ''key'') sampleFeed) 0 sampleRefresh)))
       = [1700000000000000, 1700000000000001]
   \<and> (0::nat) \<noteq> 999
   \<and> makeOddsSnapshotId 1700000000000 0 \<noteq> makeOddsSnapshotId 1700000000000 999
   \<and> (1700000000000::int) \<noteq> 1700000000001 \<and> (999::nat) < 1000 \<and> (0::nat) < 1000
   \<and> makeOddsSnapshotId 1700000000000 999 \<noteq> makeOddsSnapshotId 1700000000001 0"
proof -
  let ?run = "refreshOdds sampleRuntime (sampleEnv (Some ''key'') sampleFeed) 0 sampleRefresh"
  have f: "fst ?run = Inr \<lparr>ingestedSnapshots = 2, rr_remaining = Fin 0\<rparr>"
    using sample_run [OF sample_parseInt(1), of 0] by simp
  then have run: "?run = (Inr \<lparr>ingestedSnapshots = 2, rr_remaining = Fin 0\<rparr>, fst (snd ?run), snd (snd ?run))"
    by (metis prod.collapse)
  have u: "[0 ..< 2] = [0, Suc 0]" by (simp add: upt_rec)
  have a: "snapshotIds (fst (snd ?run)) = [1700000000000000, 1700000000000001]"
    using snapshot_ids_do_not_collide [of sampleRuntime "sampleEnv (Some ''key'') sampleFeed" 0
        sampleRefresh "\<lparr>ingestedSnapshots = 2, rr_remaining = Fin 0\<rparr>" "fst (snd ?run)" "snd (snd ?run)"]
      run
    by (simp add: u makeOddsSnapshotId_def sampleRuntime_def)
  have b: "makeOddsSnapshotId 1700000000000 0 \<noteq> makeOddsSnapshotId 1700000000000 999"
    using snapshot_ids_do_not_collide [where i = 0 and j = 999 and t = 1700000000000]
    by simp
  have c: "makeOddsSnapshotId 1700000000000 999 \<noteq> makeOddsSnapshotId 1700000000001 0"
    using snapshot_ids_do_not_collide [where i = 999 and j = 0 and ?t1.0 = 1700000000000
        and ?t2.0 = 1700000000001]
    by simp
  show ?thesis using f a b c by simp
qed

section \<open>Running the ingestion twice\<close>

text \<open>
  Claim C2, as the code has it. Let a run of \<open>refreshOdds\<close> succeed and let it be run again
  on the same feed output. The second run returns what the first returned and writes
  the same rows in the same order, the event's start time where the feed gives none, the
  snapshot ids and the fetch times apart; afterwards the Sport, Team, Sportsbook, Market
  and MarketSelection collections are what they were after the first run, and so is the
  SportEvent collection up to the start times. The snapshot ids of each run are pairwise
  distinct. The ids of the two runs are disjoint exactly when the run ingests nothing
  or its number of snapshots is at most 1000 times the distance of the two batch time
  stamps: so they are whenever the time stamps differ and a run ingests at most 1000
  snapshots, and they are not when both runs read the same millisecond.
\<close>

theorem refreshOdds_twice:
  assumes run1: "refreshOdds rt env k params = (Inr r1, es1, k1)"
    and run2: "refreshOdds rt env k1 params = (r2, es2, k2)"
  shows "r2 = Inr r1
    \<and> map stripOp (storeOps es2) = map stripOp (storeOps es1)
    \<and> sports (runStore es2 (runStore es1 s)) = sports (runStore es1 s)
    \<and> teams (runStore es2 (runStore es1 s)) = teams (runStore es1 s)
    \<and> sportsbooks (runStore es2 (runStore es1 s)) = sportsbooks (runStore es1 s)
    \<and> markets (runStore es2 (runStore es1 s)) = markets (runStore es1 s)
    \<and> marketSelections (runStore es2 (runStore es1 s)) = marketSelections (runStore es1 s)
    \<and> map stripEvent (sportEvents (runStore es2 (runStore es1 s)))
        = map stripEvent (sportEvents (runStore es1 s))
    \<and> distinct (snapshotIds es1) \<and> distinct (snapshotIds es2)
    \<and> (set (snapshotIds es1) \<inter> set (snapshotIds es2) = {}
         \<longleftrightarrow> (ingestedSnapshots r1 = 0
              \<or> int (ingestedSnapshots r1) \<le> 1000 * \<bar>dateNow rt k - dateNow rt k1\<bar>))"
proof -
  from refreshOdds_same_writes [OF run1 run2]
  have r2: "r2 = Inr r1" and same: "map stripOp (storeOps es2) = map stripOp (storeOps es1)"
    by simp_all
  have v1: "sportWrites (storeOps es2) = sportWrites (storeOps es1)"
    using same by (metis views_of_stripped(1))
  have v2: "teamWrites (storeOps es2) = teamWrites (storeOps es1)"
    using same by (metis views_of_stripped(2))
  have v3: "bookWrites (storeOps es2) = bookWrites (storeOps es1)"
    using same by (metis views_of_stripped(3))
  have v4: "marketWrites (storeOps es2) = marketWrites (storeOps es1)"
    using same by (metis views_of_stripped(4))
  have v5: "selectionWrites (storeOps es2) = selectionWrites (storeOps es1)"
    using same by (metis views_of_stripped(5))
  have v6: "map stripEvent (eventWrites (storeOps es2)) = map stripEvent (eventWrites (storeOps es1))"
    using same by (metis views_of_stripped(6))
  have t1: "sports (runStore es2 (runStore es1 s)) = sports (runStore es1 s)"
    by (simp add: runStore_def sports_fold_applyOp v1 fold_setOnInsert_idem)
  have t2: "teams (runStore es2 (runStore es1 s)) = teams (runStore es1 s)"
    by (simp add: runStore_def teams_fold_applyOp v2 fold_setOnInsert_idem)
  have t3: "sportsbooks (runStore es2 (runStore es1 s)) = sportsbooks (runStore es1 s)"
    by (simp add: runStore_def sportsbooks_fold_applyOp v3 fold_upsertSet_idem)
  have t4: "markets (runStore es2 (runStore es1 s)) = markets (runStore es1 s)"
    by (simp add: runStore_def markets_fold_applyOp v4 fold_upsertSet_idem)
  have t5: "marketSelections (runStore es2 (runStore es1 s)) = marketSelections (runStore es1 s)"
    by (simp add: runStore_def marketSelections_fold_applyOp v5 fold_upsertSet_idem)
  have sid: "se_id (stripEvent x) = se_id x" for x by (simp add: stripEvent_def)
  have t6: "map stripEvent (sportEvents (runStore es2 (runStore es1 s)))
        = map stripEvent (sportEvents (runStore es1 s))"
    unfolding runStore_def sportEvents_fold_applyOp
    using sid v6 by (rule fold_upsertSet_twice_modulo)
  have i1: "snapshotIds es1 = map (makeOddsSnapshotId (dateNow rt k)) [0 ..< ingestedSnapshots r1]"
    using run1 by (rule snapshotIds_refreshOdds)
  have i2: "snapshotIds es2 = map (makeOddsSnapshotId (dateNow rt k1)) [0 ..< ingestedSnapshots r1]"
    using run2 [unfolded r2] by (rule snapshotIds_refreshOdds)
  have d1: "distinct (snapshotIds es1)" by (simp only: i1 distinct_batch_ids)
  have d2: "distinct (snapshotIds es2)" by (simp only: i2 distinct_batch_ids)
  have x: "set (snapshotIds es1) \<inter> set (snapshotIds es2) = {}
         \<longleftrightarrow> (ingestedSnapshots r1 = 0
              \<or> int (ingestedSnapshots r1) \<le> 1000 * \<bar>dateNow rt k - dateNow rt k1\<bar>)"
    unfolding i1 i2 by (rule batch_ids_disjoint_iff)
  show ?thesis using r2 same t1 t2 t3 t4 t5 t6 d1 d2 x by blast
qed

theorem refreshOdds_twice_witness:
  "fst (refreshOdds sampleRuntime (sampleEnv (Some ''key'') sampleFeed) 0 sampleRefresh)
     = Inr \<lparr>ingestedSnapshots = 2, rr_remaining = Fin 0\<rparr>
   \<and> snd (snd (refreshOdds sampleRuntime (sampleEnv (Some ''key'') sampleFeed) 0 sampleRefresh)) = 1
   \<and> fst (refreshOdds sampleRuntime (sampleEnv (Some ''key'') sampleFeed) 1 sampleRefresh)
     = Inr \<lparr>ingestedSnapshots = 2, rr_remaining = Fin 0\<rparr>
   \<and> teams (runStore (fst (snd (refreshOdds sampleRuntime (sampleEnv (Some ''key'') sampleFeed) 1 sampleRefresh)))
        (runStore (fst (snd (refreshOdds sampleRuntime (sampleEnv (Some ''key'') sampleFeed) 0 sampleRefresh)))
           emptyStore))
     = teams (runStore (fst (snd (refreshOdds sampleRuntime (sampleEnv (Some ''key'') sampleFeed) 0 sampleRefresh)))
           emptyStore)
   \<and> map stripEvent
        (sportEvents (runStore (fst (snd (refreshOdds sampleRuntime (sampleEnv (Some ''key'') sampleFeed) 1 sampleRefresh)))
        (runStore (fst (snd (refreshOdds sampleRuntime (sampleEnv (Some ''key'') sampleFeed) 0 sampleRefresh)))
           emptyStore)))
     = map stripEvent
        (sportEvents (runStore (fst (snd (refreshOdds sampleRuntime (sampleEnv (Some ''key'') sampleFeed) 0 sampleRefresh)))
           emptyStore))
   \<and> set (snapshotIds (fst (snd (refreshOdds sampleRuntime (sampleEnv (Some ''key'') sampleFeed) 0 sampleRefresh))))
       \<inter> set (snapshotIds (fst (snd (refreshOdds sampleRuntime (sampleEnv (Some ''key'') sampleFeed) 1 sampleRefresh))))
     = {}"
proof -
  let ?run1 = "refreshOdds sampleRuntime (sampleEnv (Some ''key'') sampleFeed) 0 sampleRefresh"
  let ?run2 = "refreshOdds sampleRuntime (sampleEnv (Some ''key'') sampleFeed) 1 sampleRefresh"
  have f: "fst ?run1 = Inr \<lparr>ingestedSnapshots = 2, rr_remaining = Fin 0\<rparr>" "snd (snd ?run1) = 1"
    using sample_run [OF sample_parseInt(1), of 0] by simp_all
  then have run1: "?run1 = (Inr \<lparr>ingestedSnapshots = 2, rr_remaining = Fin 0\<rparr>, fst (snd ?run1), 1)"
    by (metis prod.collapse)
  have run2: "?run2 = (fst ?run2, fst (snd ?run2), snd (snd ?run2))" by simp
  have apart: "int (ingestedSnapshots \<lparr>ingestedSnapshots = 2, rr_remaining = Fin 0\<rparr>)
                 \<le> 1000 * \<bar>dateNow sampleRuntime 0 - dateNow sampleRuntime 1\<bar>"
    by (simp add: sampleRuntime_def)
  show ?thesis
    using f apart refreshOdds_twice [OF run1 run2, of emptyStore] by simp
qed

text \<open>
  The claim as stated fails: when both runs read the same millisecond from the clock, the
  second run produces the very ids of the first.
\<close>

theorem refreshOdds_twice_same_millisecond:
  "snd (snd (refreshOdds frozenRuntime (sampleEnv (Some ''key'') sampleFeed) 0 sampleRefresh)) = 1
   \<and> snapshotIds (fst (snd (refreshOdds frozenRuntime (sampleEnv (Some ''key'') sampleFeed) 0 sampleRefresh)))
       = [1700000000000000, 1700000000000001]
   \<and> snapshotIds (fst (snd (refreshOdds frozenRuntime (sampleEnv (Some ''key'') sampleFeed) 1 sampleRefresh)))
       = [1700000000000000, 1700000000000001]"
proof -
  let ?run1 = "refreshOdds frozenRuntime (sampleEnv (Some ''key'') sampleFeed) 0 sampleRefresh"
  let ?run2 = "refreshOdds frozenRuntime (sampleEnv (Some ''key'') sampleFeed) 1 sampleRefresh"
  have f1: "fst ?run1 = Inr \<lparr>ingestedSnapshots = 2, rr_remaining = Fin 0\<rparr>" "snd (snd ?run1) = 1"
    using sample_run [OF sample_parseInt(2), of 0] by simp_all
  have f2: "fst ?run2 = Inr \<lparr>ingestedSnapshots = 2, rr_remaining = Fin 0\<rparr>"
    using sample_run [OF sample_parseInt(2), of 1] by simp
  have run1: "?run1 = (Inr \<lparr>ingestedSnapshots = 2, rr_remaining = Fin 0\<rparr>, fst (snd ?run1), snd (snd ?run1))"
    using f1(1) by (metis prod.collapse)
  have run2: "?run2 = (Inr \<lparr>ingestedSnapshots = 2, rr_remaining = Fin 0\<rparr>, fst (snd ?run2), snd (snd ?run2))"
    using f2 by (metis prod.collapse)
  have u: "[0 ..< 2] = [0, Suc 0]" by (simp add: upt_rec)
  show ?thesis
    using f1(2) snapshotIds_refreshOdds [OF run1] snapshotIds_refreshOdds [OF run2]
    by (simp add: u makeOddsSnapshotId_def frozenRuntime_def)
qed

section \<open>Double arithmetic\<close>

lemma pow2_pos [simp]: "0 < pow2 e"
  by (simp add: pow2_def)

lemma pow2_nonneg [simp]: "0 \<le> pow2 e"
  by (simp add: pow2_def)

lemma pow2_nonzero [simp]: "pow2 e \<noteq> 0"
  by (simp add: pow2_def)

lemma pow2_mono: "e \<le> e' \<Longrightarrow> pow2 e \<le> pow2 e'"
  unfolding pow2_def by (rule power_int_increasing) simp_all

lemma pow2_strict_mono: "e < e' \<Longrightarrow> pow2 e < pow2 e'"
  unfolding pow2_def by (rule power_int_strict_increasing) simp_all

lemma pow2_add: "pow2 (a + b) = pow2 a * pow2 b"
  unfolding pow2_def by (rule power_int_add) simp

lemma pow2_nat: "0 \<le> e \<Longrightarrow> pow2 e = 2 ^ nat e"
  unfolding pow2_def by (rule power_int_nonneg_exp)

lemma pow2_minus: "pow2 (- e) = 1 / pow2 e"
  unfolding pow2_def by (rule power_int_minus_divide)

lemma pow2_numeral: "pow2 (numeral n) = 2 ^ numeral n"
  by (simp add: pow2_def)

lemma pow2_1 [simp]: "pow2 1 = 2"
  by (simp add: pow2_def)

lemma pow2_0 [simp]: "pow2 0 = 1"
  by (simp add: pow2_def)

lemma exponentOf_bounds:
  assumes "0 < a"
  shows "pow2 (exponentOf a) \<le> a" and "a < pow2 (exponentOf a + 1)"
proof -
  have "pow2 (exponentOf a) \<le> a \<and> a < pow2 (exponentOf a + 1)"
  proof (cases "1 \<le> a")
    case True
    define n where "n = \<lfloor>a\<rfloor>"
    have n: "0 < n" using True by (simp add: n_def)
    have e: "exponentOf a = bitlen n - 1" using True by (simp add: exponentOf_def n_def)
    have b1: "1 \<le> bitlen n" using n by (simp add: bitlen_alt_def)
    from bitlen_bounds [OF n] have lo: "2 ^ nat (bitlen n - 1) \<le> n" and hi: "n < 2 ^ nat (bitlen n)"
      by simp_all
    have "pow2 (bitlen n - 1) = 2 ^ nat (bitlen n - 1)" using b1 by (simp add: pow2_nat)
    also have "\<dots> = of_int (2 ^ nat (bitlen n - 1))" by simp
    also have "\<dots> \<le> of_int n" using lo by (simp only: of_int_le_iff)
    also have "\<dots> \<le> a" by (simp add: n_def)
    finally have l: "pow2 (bitlen n - 1) \<le> a" .
    have "n + 1 \<le> 2 ^ nat (bitlen n)" using hi by simp
    then have "(of_int (n + 1) :: rat) \<le> of_int (2 ^ nat (bitlen n))" by (simp only: of_int_le_iff)
    moreover have "a < of_int (n + 1)" using floor_correct [of a] by (simp add: n_def)
    ultimately have "a < of_int (2 ^ nat (bitlen n))" by linarith
    also have "\<dots> = pow2 (bitlen n)" using b1 by (simp add: pow2_nat)
    finally have "a < pow2 (bitlen n - 1 + 1)" by simp
    with l e show ?thesis by simp
  next
    case False
    define r where "r = 1 / a"
    define x where "x = \<lceil>r\<rceil> - 1"
    have r1: "1 < r" using False assms by (simp add: r_def)
    have x: "0 < x" using r1 by (simp add: x_def less_ceiling_iff)
    have e: "exponentOf a = - bitlen x" using False by (simp add: exponentOf_def x_def r_def)
    have b1: "1 \<le> bitlen x" using x by (simp add: bitlen_alt_def)
    from bitlen_bounds [OF x] have lo: "2 ^ nat (bitlen x - 1) \<le> x" and hi: "x < 2 ^ nat (bitlen x)"
      by simp_all
    have xr: "of_int x < r" "r \<le> of_int (x + 1)"
      by (simp_all add: x_def) linarith
    have "r \<le> of_int (2 ^ nat (bitlen x))"
    proof -
      have "x + 1 \<le> 2 ^ nat (bitlen x)" using hi by simp
      then have "(of_int (x + 1) :: rat) \<le> of_int (2 ^ nat (bitlen x))" by (simp only: of_int_le_iff)
      with xr(2) show ?thesis by linarith
    qed
    then have "r \<le> pow2 (bitlen x)" using b1 by (simp add: pow2_nat)
    then have "1 / a \<le> pow2 (bitlen x)" by (simp add: r_def)
    then have "1 \<le> a * pow2 (bitlen x)" using assms by (simp add: field_simps)
    then have l: "pow2 (- bitlen x) \<le> a"
      by (simp add: pow2_minus field_simps)
    have "(of_int (2 ^ nat (bitlen x - 1)) :: rat) \<le> of_int x" using lo by (simp only: of_int_le_iff)
    with xr(1) have "of_int (2 ^ nat (bitlen x - 1)) < r" by linarith
    then have "pow2 (bitlen x - 1) < r" using b1 by (simp add: pow2_nat)
    then have "pow2 (bitlen x - 1) < 1 / a" by (simp add: r_def)
    then have "a * pow2 (bitlen x - 1) < 1" using assms by (simp add: field_simps)
    then have "a < 1 / pow2 (bitlen x - 1)" by (simp add: pos_less_divide_eq)
    also have "1 / pow2 (bitlen x - 1) = pow2 (- (bitlen x - 1))"
      by (simp only: pow2_minus)
    also have "- (bitlen x - 1) = - bitlen x + 1" by simp
    finally have "a < pow2 (- bitlen x + 1)" .
    with l e show ?thesis by simp
  qed
  then show "pow2 (exponentOf a) \<le> a" and "a < pow2 (exponentOf a + 1)" by simp_all
qed

lemma exponentOf_unique:
  assumes "0 < a" and "pow2 e \<le> a" and "a < pow2 (e + 1)"
  shows "exponentOf a = e"
proof (rule ccontr)
  assume ne: "exponentOf a \<noteq> e"
  note b = exponentOf_bounds [OF assms(1)]
  show False
  proof (cases "exponentOf a < e")
    case True
    then have "exponentOf a + 1 \<le> e" by simp
    then have "pow2 (exponentOf a + 1) \<le> pow2 e" by (rule pow2_mono)
    with b(2) assms(2) show False by linarith
  next
    case False
    with ne have "e + 1 \<le> exponentOf a" by simp
    then have "pow2 (e + 1) \<le> pow2 (exponentOf a)" by (rule pow2_mono)
    with b(1) assms(3) show False by linarith
  qed
qed


subsection \<open>Rounding to an integer\<close>

lemma roundHalfEven_of_int: "roundHalfEven (of_int k) = k"
  by (simp add: roundHalfEven_def)

lemma roundHalfEven_floor: "\<lfloor>r\<rfloor> \<le> roundHalfEven r" "roundHalfEven r \<le> \<lfloor>r\<rfloor> + 1"
  by (simp_all add: roundHalfEven_def Let_def)

lemma roundHalfEven_ge: "of_int k \<le> r \<Longrightarrow> k \<le> roundHalfEven r"
proof -
  assume "of_int k \<le> r"
  then have "k \<le> \<lfloor>r\<rfloor>" by (simp add: le_floor_iff)
  with roundHalfEven_floor(1) [of r] show ?thesis by linarith
qed

lemma roundHalfEven_le: "r \<le> of_int k \<Longrightarrow> roundHalfEven r \<le> k"
proof (cases "r = of_int k")
  case True
  then show ?thesis by (simp add: roundHalfEven_of_int)
next
  case False
  assume "r \<le> of_int k"
  with False have "r < of_int k" by simp
  then have "\<lfloor>r\<rfloor> < k" by (simp add: floor_less_iff)
  with roundHalfEven_floor(2) [of r] show ?thesis by simp
qed

lemma roundHalfEven_near:
  assumes "\<bar>r - of_int m\<bar> < 1 / 2"
  shows "roundHalfEven r = m"
proof (cases "of_int m \<le> r")
  case True
  with assms have "r < of_int m + 1" by linarith
  with True have f: "\<lfloor>r\<rfloor> = m" by (simp add: floor_unique)
  have "r - of_int m < 1 / 2" using assms True by linarith
  then show ?thesis by (simp add: roundHalfEven_def f)
next
  case False
  then have lt: "r < of_int m" by simp
  from assms have "of_int m - 1 / 2 < r" by linarith
  then have "of_int (m - 1) \<le> r" by simp
  moreover have "r < of_int (m - 1) + 1" using lt by simp
  ultimately have f: "\<lfloor>r\<rfloor> = m - 1" by (rule floor_unique)
  have "1 / 2 < r - of_int (m - 1)" using assms lt by simp
  then show ?thesis by (simp add: roundHalfEven_def f)
qed

subsection \<open>Rounding to a double\<close>

lemma roundDouble_0: "roundDouble 0 = Fin 0"
  by (simp add: roundDouble_def)

lemma roundDouble_minus: "roundDouble (- q) = jsNeg (roundDouble q)"
  by (cases "q = 0"; cases "0 < q") (auto simp: roundDouble_def Let_def)

text \<open>The shape of the result for a positive argument.\<close>

lemma roundDouble_pos:
  assumes "0 < q"
  defines "u \<equiv> max (exponentOf q) (- 1022) - 52"
  defines "m \<equiv> roundHalfEven (q / pow2 u)"
  shows "roundDouble q = (if pow2 1024 \<le> of_int m * pow2 u then PInf else Fin (of_int m * pow2 u))"
    and "- 1074 \<le> u" and "0 \<le> m" and "m \<le> 2 ^ 53"
    and "pow2 u \<le> q \<Longrightarrow> 1 \<le> m"
proof -
  show "roundDouble q = (if pow2 1024 \<le> of_int m * pow2 u then PInf else Fin (of_int m * pow2 u))"
    using assms(1) by (simp add: roundDouble_def Let_def u_def m_def)
  show "- 1074 \<le> u" by (simp add: u_def)
  have "0 \<le> q / pow2 u" using assms(1) by simp
  then have "of_int 0 \<le> q / pow2 u" by simp
  then show "0 \<le> m" unfolding m_def by (rule roundHalfEven_ge)
  have "exponentOf q + 1 \<le> u + 53" by (simp add: u_def)
  then have "pow2 (exponentOf q + 1) \<le> pow2 (u + 53)" by (rule pow2_mono)
  with exponentOf_bounds(2) [OF assms(1)] have "q < pow2 (u + 53)" by linarith
  also have "\<dots> = pow2 u * 2 ^ 53" by (simp add: pow2_add pow2_numeral)
  finally have "q / pow2 u < 2 ^ 53" by (simp add: pos_divide_less_eq mult.commute)
  then have "q / pow2 u \<le> of_int (2 ^ 53)" by simp
  then show "m \<le> 2 ^ 53" unfolding m_def by (rule roundHalfEven_le)
  show "1 \<le> m" if "pow2 u \<le> q"
  proof -
    from that have "1 \<le> q / pow2 u" by (simp add: pos_le_divide_eq)
    then have "of_int 1 \<le> q / pow2 u" by simp
    then show ?thesis unfolding m_def by (rule roundHalfEven_ge)
  qed
qed

lemma representable_minus: "representable (- r) \<longleftrightarrow> representable r"
proof -
  have "representable (- r)" if "representable r" for r
  proof -
    from that obtain m u where m: "r = of_int m * pow2 u" "\<bar>m\<bar> < 2 ^ 53" "- 1074 \<le> u"
      and b: "\<bar>r\<bar> < pow2 1024"
      by (auto simp: representable_def)
    have "- r = of_int (- m) * pow2 u" "\<bar>- m\<bar> < 2 ^ 53" using m by simp_all
    with m(3) b show ?thesis unfolding representable_def by (metis abs_minus_cancel)
  qed
  from this [of r] this [of "- r"] show ?thesis by auto
qed

lemma roundDouble_representable_pos:
  assumes "0 < r" and "r = of_int m * pow2 u'" and "\<bar>m\<bar> < 2 ^ 53" and "- 1074 \<le> u'"
    and "r < pow2 1024"
  shows "roundDouble r = Fin r"
proof -
  define u where "u = max (exponentOf r) (- 1022) - 52"
  have mpos: "0 < m"
  proof (rule ccontr)
    assume "\<not> 0 < m"
    then have "of_int m * pow2 u' \<le> 0" by (simp add: mult_le_0_iff)
    with assms(1,2) show False by simp
  qed
  have le: "u \<le> u'"
  proof (rule ccontr)
    assume "\<not> u \<le> u'"
    then have gt: "u' < u" by simp
    have "exponentOf r \<ge> - 1022"
    proof (rule ccontr)
      assume "\<not> exponentOf r \<ge> - 1022"
      then have "u = - 1074" by (simp add: u_def)
      with gt assms(4) show False by simp
    qed
    then have ue: "u = exponentOf r - 52" by (simp add: u_def)
    have "(of_int m :: rat) < 2 ^ 53" using assms(3) mpos
      by (metis abs_of_pos of_int_less_iff of_int_numeral of_int_power)
    then have "of_int m * pow2 u' < 2 ^ 53 * pow2 u'" by simp
    also have "\<dots> = pow2 (u' + 53)" by (simp add: pow2_add pow2_numeral)
    finally have "r < pow2 (u' + 53)" using assms(2) by simp
    with exponentOf_bounds(1) [OF assms(1)] have "pow2 (exponentOf r) < pow2 (u' + 53)"
      by linarith
    then have "exponentOf r < u' + 53"
      by (metis linorder_not_le pow2_mono)
    with ue gt show False by simp
  qed
  define k where "k = m * 2 ^ nat (u' - u)"
  have "pow2 u' = pow2 (u' - u) * pow2 u" by (simp flip: pow2_add)
  also have "pow2 (u' - u) = 2 ^ nat (u' - u)" using le by (simp add: pow2_nat)
  finally have rk: "r = of_int k * pow2 u" using assms(2) by (simp add: k_def)
  then have "r / pow2 u = of_int k" by simp
  then have h: "roundHalfEven (r / pow2 u) = k" by (simp add: roundHalfEven_of_int)
  have "roundDouble r = (if pow2 1024 \<le> of_int k * pow2 u then PInf else Fin (of_int k * pow2 u))"
    using roundDouble_pos(1) [OF assms(1), folded u_def] by (simp only: h)
  also have "of_int k * pow2 u = r" by (simp only: rk)
  finally show ?thesis using assms(5) by simp
qed

lemma roundDouble_representable: "representable r \<Longrightarrow> roundDouble r = Fin r"
proof -
  assume rep: "representable r"
  have pos: "roundDouble x = Fin x" if "representable x" "0 < x" for x
  proof -
    from that(1) obtain m u where "x = of_int m * pow2 u" "\<bar>m\<bar> < 2 ^ 53" "- 1074 \<le> u"
      and "\<bar>x\<bar> < pow2 1024"
      by (auto simp: representable_def)
    with that(2) show ?thesis by (intro roundDouble_representable_pos [of x m u]) simp_all
  qed
  consider "r = 0" | "0 < r" | "r < 0" by linarith
  then show ?thesis
  proof cases
    case 1
    then show ?thesis by (simp add: roundDouble_0)
  next
    case 2
    with rep show ?thesis by (rule pos)
  next
    case 3
    then have "roundDouble (- r) = Fin (- r)" using rep by (intro pos) (simp_all add: representable_minus)
    then show ?thesis using roundDouble_minus [of "- r"] by simp
  qed
qed

lemma roundDouble_result_pos:
  assumes "0 < q" and "roundDouble q = Fin r"
  shows "representable r" and "0 \<le> r"
proof -
  define u where "u = max (exponentOf q) (- 1022) - 52"
  define m where "m = roundHalfEven (q / pow2 u)"
  note p = roundDouble_pos [OF assms(1), folded u_def m_def]
  from p(1) assms(2) have r: "r = of_int m * pow2 u" and b: "r < pow2 1024"
    by (simp_all split: if_splits)
  show nn: "0 \<le> r" using r p(3) by simp
  then have ab: "\<bar>r\<bar> < pow2 1024" using b by simp
  show "representable r"
  proof (cases "m = 2 ^ 53")
    case True
    have "r = of_int (2 ^ 52) * pow2 (u + 1)" using r True by (simp add: pow2_add)
    moreover have "\<bar>2 ^ 52 :: int\<bar> < 2 ^ 53" by simp
    moreover have "- 1074 \<le> u + 1" using p(2) by simp
    ultimately show ?thesis using ab unfolding representable_def by blast
  next
    case False
    with p(3,4) have "\<bar>m\<bar> < 2 ^ 53" by simp
    with r p(2) ab show ?thesis unfolding representable_def by blast
  qed
qed

lemma roundDouble_result: "roundDouble q = Fin r \<Longrightarrow> representable r"
proof -
  assume a: "roundDouble q = Fin r"
  consider "q = 0" | "0 < q" | "q < 0" by linarith
  then show ?thesis
  proof cases
    case 1
    with a have "r = 0" by (simp add: roundDouble_0)
    moreover have "(0::rat) = of_int 0 * pow2 0" "\<bar>0::int\<bar> < 2 ^ 53" by simp_all
    ultimately show ?thesis unfolding representable_def by (metis abs_zero le_minus_one_simps(2) neg_numeral_le_zero pow2_pos)
  next
    case 2
    with a show ?thesis by (intro roundDouble_result_pos(1) [of q])
  next
    case 3
    from a have "roundDouble (- q) = Fin (- r)" by (simp add: roundDouble_minus)
    with 3 have "representable (- r)" by (intro roundDouble_result_pos(1) [of "- q"]) simp_all
    then show ?thesis by (simp add: representable_minus)
  qed
qed

lemma roundDouble_idem: "roundDouble q = Fin r \<Longrightarrow> roundDouble r = Fin r"
  by (rule roundDouble_representable) (rule roundDouble_result)

lemma representable_grid: "representable r \<Longrightarrow> \<exists>k. r = of_int k * pow2 (- 1074)"
proof -
  assume "representable r"
  then obtain m u where m: "r = of_int m * pow2 u" "- 1074 \<le> u"
    by (auto simp: representable_def)
  have "pow2 u = pow2 (u + 1074) * pow2 (- 1074)" by (simp flip: pow2_add)
  also have "pow2 (u + 1074) = 2 ^ nat (u + 1074)" using m(2) by (simp add: pow2_nat)
  finally have "r = of_int (m * 2 ^ nat (u + 1074)) * pow2 (- 1074)" using m(1) by simp
  then show ?thesis by blast
qed

lemma representable_of_int: "\<bar>i\<bar> < 2 ^ 53 \<Longrightarrow> representable (of_int i)"
proof -
  assume a: "\<bar>i\<bar> < 2 ^ 53"
  have "(of_int i :: rat) = of_int i * pow2 0" by simp
  moreover have "\<bar>of_int i :: rat\<bar> < pow2 1024"
  proof -
    have "\<bar>of_int i :: rat\<bar> = of_int \<bar>i\<bar>" by simp
    also have "\<dots> < of_int (2 ^ 53)" using a by (simp only: of_int_less_iff)
    also have "\<dots> = pow2 53" by (simp add: pow2_numeral)
    also have "\<dots> \<le> pow2 1024" by (rule pow2_mono) simp
    finally show ?thesis .
  qed
  ultimately show ?thesis using a unfolding representable_def
    by (metis neg_numeral_le_zero)
qed

text \<open>A positive argument that is at least the smallest double does not round to zero.\<close>

lemma roundDouble_positive:
  assumes "pow2 (- 1074) \<le> q"
  shows "roundDouble q = PInf \<or> (\<exists>r. roundDouble q = Fin r \<and> 0 < r)"
proof -
  have q: "0 < q" using assms pow2_pos [of "- 1074"] by linarith
  define u where "u = max (exponentOf q) (- 1022) - 52"
  define m where "m = roundHalfEven (q / pow2 u)"
  note p = roundDouble_pos [OF q, folded u_def m_def]
  have "pow2 u \<le> q"
  proof (cases "exponentOf q \<ge> - 1022")
    case True
    then have "u \<le> exponentOf q" by (simp add: u_def)
    then have "pow2 u \<le> pow2 (exponentOf q)" by (rule pow2_mono)
    with exponentOf_bounds(1) [OF q] show ?thesis by linarith
  next
    case False
    then have "u = - 1074" by (simp add: u_def)
    with assms show ?thesis by simp
  qed
  then have "1 \<le> m" by (rule p(5))
  then have "0 < of_int m * pow2 u" by simp
  with p(1) show ?thesis by auto
qed


lemma pow2_neg_numeral: "pow2 (- numeral n) = 1 / 2 ^ numeral n"
  by (simp add: pow2_minus pow2_numeral)

lemma pow2_m1 [simp]: "pow2 (- 1) = 1 / 2"
  by (simp add: pow2_minus)

text \<open>How a rounding is checked: the argument lies in the binade of \<open>2^(u+52)\<close> and within half a unit of \<open>m\<close>.\<close>

lemma roundDouble_eqI:
  assumes "0 < q" and "- 1074 \<le> u" and "pow2 (u + 52) \<le> q" and "q < pow2 (u + 53)"
    and "\<bar>q / pow2 u - of_int m\<bar> < 1 / 2" and "of_int m * pow2 u < pow2 1024"
  shows "roundDouble q = Fin (of_int m * pow2 u)"
proof -
  have "q < pow2 (u + 52 + 1)" using assms(4) by (simp add: add.commute add.left_commute)
  with assms(1,3) have e: "exponentOf q = u + 52" by (intro exponentOf_unique)
  have u: "max (exponentOf q) (- 1022) - 52 = u" using assms(2) by (simp add: e)
  have h: "roundHalfEven (q / pow2 u) = m" using assms(5) by (rule roundHalfEven_near)
  from roundDouble_pos(1) [OF assms(1)] have
    "roundDouble q = (if pow2 1024 \<le> of_int m * pow2 u then PInf else Fin (of_int m * pow2 u))"
    by (simp only: u h)
  with assms(6) show ?thesis by simp
qed


lemma roundHalfEven_tie: "roundHalfEven (of_int f + 1 / 2) = (if even f then f else f + 1)"
proof -
  have "\<lfloor>of_int f + (1 / 2 :: rat)\<rfloor> = f" by (rule floor_unique) simp_all
  then show ?thesis by (simp add: roundHalfEven_def)
qed

lemma roundDouble_tieI:
  assumes "0 < q" and "- 1074 \<le> u" and "pow2 (u + 52) \<le> q" and "q < pow2 (u + 53)"
    and "q / pow2 u = of_int f + 1 / 2" and "m = (if even f then f else f + 1)"
    and "of_int m * pow2 u < pow2 1024"
  shows "roundDouble q = Fin (of_int m * pow2 u)"
proof -
  have "q < pow2 (u + 52 + 1)" using assms(4) by (simp add: add.commute add.left_commute)
  with assms(1,3) have e: "exponentOf q = u + 52" by (intro exponentOf_unique)
  have u: "max (exponentOf q) (- 1022) - 52 = u" using assms(2) by (simp add: e)
  have h: "roundHalfEven (q / pow2 u) = m" by (simp only: assms(5,6) roundHalfEven_tie)
  from roundDouble_pos(1) [OF assms(1)] have
    "roundDouble q = (if pow2 1024 \<le> of_int m * pow2 u then PInf else Fin (of_int m * pow2 u))"
    by (simp only: u h)
  with assms(7) show ?thesis by simp
qed

subsection \<open>The operations\<close>

lemma roundDouble_jsDouble: "jsDouble (roundDouble q)"
  by (cases "roundDouble q") (simp_all add: roundDouble_result, simp add: roundDouble_def Let_def split: if_splits)

lemma roundDouble_sign:
  "0 < q \<Longrightarrow> roundDouble q = PInf \<or> (\<exists>r. roundDouble q = Fin r \<and> 0 \<le> r)"
  "q < 0 \<Longrightarrow> roundDouble q = NInf \<or> (\<exists>r. roundDouble q = Fin r \<and> r \<le> 0)"
proof -
  have pos: "roundDouble x = PInf \<or> (\<exists>r. roundDouble x = Fin r \<and> 0 \<le> r)" if "0 < x" for x
    using roundDouble_pos(1,3) [OF that] by (auto split: if_splits)
  show "0 < q \<Longrightarrow> roundDouble q = PInf \<or> (\<exists>r. roundDouble q = Fin r \<and> 0 \<le> r)"
    by (rule pos)
  show "roundDouble q = NInf \<or> (\<exists>r. roundDouble q = Fin r \<and> r \<le> 0)" if "q < 0"
  proof -
    from that have "0 < - q" by simp
    from pos [OF this] roundDouble_minus [of "- q"] show ?thesis by auto
  qed
qed

lemma jsAdd_commute: "jsAdd a b = jsAdd b a"
  by (cases a; cases b) (simp_all add: add.commute)

lemma jsAdd_zero: "representable x \<Longrightarrow> jsAdd (Fin 0) (Fin x) = Fin x"
  by (simp add: roundDouble_representable)

lemma representable_diff:
  assumes "representable a" and "representable b" and "a < b"
  shows "pow2 (- 1074) \<le> b - a"
proof -
  from representable_grid [OF assms(1)] obtain k where k: "a = of_int k * pow2 (- 1074)" by blast
  from representable_grid [OF assms(2)] obtain l where l: "b = of_int l * pow2 (- 1074)" by blast
  from assms(3) k l have "of_int k * pow2 (- 1074) < of_int l * pow2 (- 1074)" by simp
  then have "(of_int k :: rat) < of_int l" by (simp add: mult_less_cancel_right_pos)
  then have "k + 1 \<le> l" by simp
  then have "(of_int (k + 1) :: rat) \<le> of_int l" by (simp only: of_int_le_iff)
  then have "of_int (k + 1) * pow2 (- 1074) \<le> of_int l * pow2 (- 1074)"
    by (rule mult_right_mono) simp
  with k l show ?thesis by (simp add: algebra_simps)
qed

text \<open>The sign of a difference of two doubles tells which is greater.\<close>

lemma jsSub_positive:
  assumes "jsDouble a" and "jsDouble b"
  shows "jsPositive (jsSub b a) \<longleftrightarrow> jsLess a b"
proof (cases a; cases b)
  fix x y
  assume a: "a = Fin x" and b: "b = Fin y"
  with assms have r: "representable x" "representable y" by simp_all
  consider "x < y" | "x = y" | "y < x" by linarith
  then have "jsPositive (roundDouble (y - x)) \<longleftrightarrow> x < y"
  proof cases
    case 1
    from representable_diff [OF r 1] have "pow2 (- 1074) \<le> y - x" .
    from roundDouble_positive [OF this] 1 show ?thesis by auto
  next
    case 2
    then show ?thesis by (simp add: roundDouble_0)
  next
    case 3
    then have "y - x < 0" by simp
    from roundDouble_sign(2) [OF this] 3 show ?thesis by auto
  qed
  with a b show ?thesis by simp
qed (use assms in simp_all)

lemma jsLess_asym: "jsLess a b \<Longrightarrow> \<not> jsLess b a"
  by (cases a; cases b) simp_all

lemma jsLess_negtrans: "a \<noteq> NaN \<Longrightarrow> b \<noteq> NaN \<Longrightarrow> c \<noteq> NaN \<Longrightarrow> \<not> jsLess a b \<Longrightarrow> \<not> jsLess b c \<Longrightarrow> \<not> jsLess a c"
  by (cases a; cases b; cases c) simp_all

text \<open>Integers below \<open>2^53\<close> in magnitude are computed with exactly.\<close>

lemma roundDouble_of_int: "\<bar>i\<bar> < 2 ^ 53 \<Longrightarrow> roundDouble (of_int i) = Fin (of_int i)"
  by (rule roundDouble_representable) (rule representable_of_int)

lemma jsMul_of_int:
  "\<bar>a * b\<bar> < 2 ^ 53 \<Longrightarrow> jsMul (Fin (of_int a)) (Fin (of_int b)) = Fin (of_int (a * b))"
  using roundDouble_of_int [of "a * b"] by simp

lemma jsSub_of_int:
  "\<bar>a - b\<bar> < 2 ^ 53 \<Longrightarrow> jsSub (Fin (of_int a)) (Fin (of_int b)) = Fin (of_int (a - b))"
  using roundDouble_of_int [of "a - b"] by simp

lemma jsAdd_of_int:
  "\<bar>a + b\<bar> < 2 ^ 53 \<Longrightarrow> jsAdd (Fin (of_int a)) (Fin (of_int b)) = Fin (of_int (a + b))"
  using roundDouble_of_int [of "a + b"] by simp

section \<open>Archive sweep\<close>

subsection \<open>The cutoff\<close>

lemma truncRat_of_int: "truncRat (of_int i) = i"
  by (simp add: truncRat_def)

lemma cutoffDate_explicit:
  "cutoffDate now daysOld = Some c \<longleftrightarrow>
     (\<exists>x. jsSub (Fin (of_int now))
             (jsMul (jsMul (jsMul (jsMul daysOld (Fin 24)) (Fin 60)) (Fin 60)) (Fin 1000)) = Fin x
         \<and> \<bar>x\<bar> \<le> 8640000000000000 \<and> c = truncRat x)"
  by (auto simp: cutoffDate_def split: jsnum.splits)

lemma whole_days_product:
  assumes "0 \<le> m" and "m \<le> 100000000"
  shows "jsMul (jsMul (jsMul (jsMul (Fin (of_int m)) (Fin 24)) (Fin 60)) (Fin 60)) (Fin 1000)
           = Fin (of_int (m * 86400000))"
proof -
  have a: "jsMul (Fin (of_int m)) (Fin (of_int 24)) = Fin (of_int (m * 24))"
    using assms by (intro jsMul_of_int) simp
  have b: "jsMul (Fin (of_int (m * 24))) (Fin (of_int 60)) = Fin (of_int (m * 24 * 60))"
    using assms by (intro jsMul_of_int) simp
  have c: "jsMul (Fin (of_int (m * 24 * 60))) (Fin (of_int 60)) = Fin (of_int (m * 24 * 60 * 60))"
    using assms by (intro jsMul_of_int) simp
  have d: "jsMul (Fin (of_int (m * 24 * 60 * 60))) (Fin (of_int 1000))
             = Fin (of_int (m * 24 * 60 * 60 * 1000))"
    using assms by (intro jsMul_of_int) simp
  have n: "(24 :: rat) = of_int 24" "(60 :: rat) = of_int 60" "(1000 :: rat) = of_int 1000" by simp_all
  have "jsMul (jsMul (jsMul (jsMul (Fin (of_int m)) (Fin 24)) (Fin 60)) (Fin 60)) (Fin 1000)
          = Fin (of_int (m * 24 * 60 * 60 * 1000))"
    by (simp only: n a b c d)
  also have "m * 24 * 60 * 60 * 1000 = m * 86400000" by simp
  finally show ?thesis .
qed

lemma cutoffDate_whole_days:
  assumes "0 \<le> now" and "now \<le> 8640000000000000" and "n \<le> 100000000"
  shows "cutoffDate now (Fin (of_nat n)) = Some (now - int n * 86400000)"
proof -
  define x where "x = now - int n * 86400000"
  have m: "0 \<le> int n" "int n \<le> 100000000" using assms(3) by simp_all
  have p: "jsMul (jsMul (jsMul (jsMul (Fin (of_int (int n))) (Fin 24)) (Fin 60)) (Fin 60)) (Fin 1000)
           = Fin (of_int (int n * 86400000))"
    using m by (rule whole_days_product)
  have b: "\<bar>x\<bar> \<le> 8640000000000000" using assms(1,2) m by (simp add: x_def)
  then have "\<bar>now - int n * 86400000\<bar> < 2 ^ 53" by (simp add: x_def)
  then have d: "jsSub (Fin (of_int now)) (Fin (of_int (int n * 86400000))) = Fin (of_int x)"
    unfolding x_def by (rule jsSub_of_int)
  have "(\<bar>of_int x\<bar> :: rat) = of_int \<bar>x\<bar>" by simp
  also have "\<dots> \<le> of_int 8640000000000000" using b by (simp only: of_int_le_iff)
  finally have "(\<bar>of_int x\<bar> :: rat) \<le> 8640000000000000" by simp
  then have r: "\<not> (\<bar>of_int x\<bar> :: rat) > 8640000000000000" by (simp only: not_less)
  have e: "(of_nat n :: rat) = of_int (int n)" by simp
  have "cutoffDate now (Fin (of_nat n)) = Some x"
    unfolding cutoffDate_def e p d by (simp only: jsnum.case r if_False truncRat_of_int)
  then show ?thesis by (simp only: x_def)
qed

subsection \<open>The archive insert\<close>

lemma insertMany_new:
  "\<exists>new. insertManyUnordered accepts docs arch = arch @ new
       \<and> (\<forall>d \<in> set new. d \<in> set docs \<and> accepts d \<and> os_id d \<notin> os_id ` set arch)"
  unfolding insertManyUnordered_def
proof (induction docs arbitrary: arch)
  case Nil
  then show ?case by simp
next
  case (Cons d docs)
  obtain new where n: "fold (insertOne accepts) docs (insertOne accepts d arch)
      = insertOne accepts d arch @ new"
    "\<forall>d' \<in> set new. d' \<in> set docs \<and> accepts d' \<and> os_id d' \<notin> os_id ` set (insertOne accepts d arch)"
    using Cons.IH by blast
  show ?case
  proof (cases "accepts d \<and> os_id d \<notin> set (map os_id arch)")
    case True
    then have i: "insertOne accepts d arch = arch @ [d]" by (simp add: insertOne_def)
    have "fold (insertOne accepts) (d # docs) arch = arch @ (d # new)"
      using n(1) i by simp
    moreover have "\<forall>d' \<in> set (d # new). d' \<in> set (d # docs) \<and> accepts d' \<and> os_id d' \<notin> os_id ` set arch"
      using n(2) i True by auto
    ultimately show ?thesis by blast
  next
    case False
    then have i: "insertOne accepts d arch = arch" by (auto simp: insertOne_def)
    have "fold (insertOne accepts) (d # docs) arch = arch @ new"
      using n(1) i by simp
    moreover have "\<forall>d' \<in> set new. d' \<in> set (d # docs) \<and> accepts d' \<and> os_id d' \<notin> os_id ` set arch"
      using n(2) i by auto
    ultimately show ?thesis by blast
  qed
qed

lemma insertMany_keeps_ids:
  "os_id ` set arch \<subseteq> os_id ` set (insertManyUnordered accepts docs arch)"
  using insertMany_new [of accepts docs arch] by auto

lemma insertMany_archives_accepted:
  "d \<in> set docs \<Longrightarrow> accepts d \<Longrightarrow> os_id d \<in> os_id ` set (insertManyUnordered accepts docs arch)"
  unfolding insertManyUnordered_def
proof (induction docs arbitrary: arch)
  case Nil
  then show ?case by simp
next
  case (Cons x docs)
  show ?case
  proof (cases "d = x")
    case True
    have "os_id d \<in> os_id ` set (insertOne accepts d arch)"
      using Cons.prems(2) by (auto simp: insertOne_def)
    then have "os_id d \<in> os_id ` set (insertManyUnordered accepts docs (insertOne accepts d arch))"
      using insertMany_keeps_ids by blast
    then show ?thesis using True by (simp add: insertManyUnordered_def)
  next
    case False
    with Cons.prems have "d \<in> set docs" by simp
    from Cons.IH [OF this Cons.prems(2)] show ?thesis by simp
  qed
qed

lemma insertMany_distinct:
  "distinct (map os_id arch) \<Longrightarrow> distinct (map os_id (insertManyUnordered accepts docs arch))"
  unfolding insertManyUnordered_def
proof (induction docs arbitrary: arch)
  case Nil
  then show ?case by simp
next
  case (Cons d docs)
  have "distinct (map os_id (insertOne accepts d arch))"
    using Cons.prems by (auto simp: insertOne_def)
  then show ?case using Cons.IH by simp
qed

text \<open>The documents of the bulk insert: the selected rows in order, each with its own reading of the clock.\<close>

lemma archive_docs_nth:
  assumes "j < length old"
  shows "map (\<lambda>(o', j). toArchive o' (f j)) (zip old [0 ..< length old]) ! j = toArchive (old ! j) (f j)"
  using assms by simp

lemma archive_docs_member:
  "d \<in> set (map (\<lambda>(o', j). toArchive o' (f j)) (zip old [0 ..< length old]))
     \<longleftrightarrow> (\<exists>j < length old. d = toArchive (old ! j) (f j))"
proof -
  let ?docs = "map (\<lambda>(o', j). toArchive o' (f j)) (zip old [0 ..< length old])"
  have l: "length ?docs = length old" by simp
  have "d \<in> set ?docs \<longleftrightarrow> (\<exists>j < length ?docs. ?docs ! j = d)" by (simp only: in_set_conv_nth)
  also have "\<dots> \<longleftrightarrow> (\<exists>j < length old. d = toArchive (old ! j) (f j))"
    unfolding l using archive_docs_nth [of _ old f] by (metis (no_types, lifting))
  finally show ?thesis .
qed

subsection \<open>The delete\<close>

lemma hot_after_delete:
  "\<forall>r \<in> set (filter (\<lambda>r. os_id r \<notin> set (map os_id (filter (\<lambda>r. os_fetched_at r < c) hot))) hot).
      c \<le> os_fetched_at r"
proof
  fix r
  assume "r \<in> set (filter (\<lambda>r. os_id r \<notin> set (map os_id (filter (\<lambda>r. os_fetched_at r < c) hot))) hot)"
  then have a: "r \<in> set hot" "os_id r \<notin> os_id ` set (filter (\<lambda>r. os_fetched_at r < c) hot)"
    by simp_all
  have "\<not> os_fetched_at r < c"
  proof
    assume "os_fetched_at r < c"
    with a(1) have "r \<in> set (filter (\<lambda>r. os_fetched_at r < c) hot)" by simp
    with a(2) show False by blast
  qed
  then show "c \<le> os_fetched_at r" by simp
qed

lemma hot_after_delete_distinct:
  "distinct (map os_id hot) \<Longrightarrow>
     filter (\<lambda>r. os_id r \<notin> set (map os_id (filter (\<lambda>r. os_fetched_at r < c) hot))) hot
       = filter (\<lambda>r. \<not> os_fetched_at r < c) hot"
proof -
  assume d: "distinct (map os_id hot)"
  have "os_id r \<notin> set (map os_id (filter (\<lambda>r. os_fetched_at r < c) hot)) \<longleftrightarrow> \<not> os_fetched_at r < c"
    if "r \<in> set hot" for r
  proof
    assume "os_id r \<notin> set (map os_id (filter (\<lambda>r. os_fetched_at r < c) hot))"
    then show "\<not> os_fetched_at r < c" using that by force
  next
    assume n: "\<not> os_fetched_at r < c"
    show "os_id r \<notin> set (map os_id (filter (\<lambda>r. os_fetched_at r < c) hot))"
    proof
      assume "os_id r \<in> set (map os_id (filter (\<lambda>r. os_fetched_at r < c) hot))"
      then obtain r' where r': "r' \<in> set hot" "os_fetched_at r' < c" "os_id r' = os_id r" by auto
      with d that have "r' = r" by (meson distinct_map inj_onD)
      with r' n show False by simp
    qed
  qed
  then show ?thesis by (simp cong: filter_cong)
qed

lemma archive_step:
  assumes c: "cutoffDate (dateNow rt k) daysOld = Some cutoff"
  shows "archiveOldSnapshots rt accepts k daysOld s =
     (let old = filter (\<lambda>r. os_fetched_at r < cutoff) (oddsSnapshots s)
      in if old = [] then (Inr \<lparr>archived = 0\<rparr>, s, Suc k)
         else (Inr \<lparr>archived = length old\<rparr>,
               s\<lparr>oddsSnapshotArchive :=
                    insertManyUnordered accepts
                      (map (\<lambda>(o', j). toArchive o' (dateNow rt (Suc k + j))) (zip old [0 ..< length old]))
                      (oddsSnapshotArchive s),
                  oddsSnapshots := filter (\<lambda>r. os_id r \<notin> set (map os_id old)) (oddsSnapshots s)\<rparr>,
               Suc k + length old))"
  by (simp add: archiveOldSnapshots_def c Let_def)


lemma archive_invalid:
  "cutoffDate (dateNow rt k) daysOld = None \<Longrightarrow>
     archiveOldSnapshots rt accepts k daysOld s = (Inl castError, s, Suc k)"
  by (simp add: archiveOldSnapshots_def)

lemma archive_sweep_valid:
  assumes c: "cutoffDate (dateNow rt k) daysOld = Some cutoff"
    and run: "archiveOldSnapshots rt accepts k daysOld s = (res, s', k')"
  shows "res = Inr \<lparr>archived = length (filter (\<lambda>r. os_fetched_at r < cutoff) (oddsSnapshots s))\<rparr>
        \<and> (filter (\<lambda>r. os_fetched_at r < cutoff) (oddsSnapshots s) = [] \<longrightarrow> s' = s \<and> k' = Suc k)
        \<and> oddsSnapshots s' = filter (\<lambda>r. os_id r \<notin> os_id ` set (filter (\<lambda>r. os_fetched_at r < cutoff) (oddsSnapshots s))) (oddsSnapshots s)
        \<and> (distinct (map os_id (oddsSnapshots s)) \<longrightarrow>
              oddsSnapshots s' = filter (\<lambda>r. \<not> os_fetched_at r < cutoff) (oddsSnapshots s))
        \<and> (\<forall>r \<in> set (oddsSnapshots s'). cutoff \<le> os_fetched_at r)
        \<and> (\<exists>new. oddsSnapshotArchive s' = oddsSnapshotArchive s @ new
               \<and> (\<forall>d \<in> set new. \<exists>j r. j < length (filter (\<lambda>r. os_fetched_at r < cutoff) (oddsSnapshots s)) \<and> r = (filter (\<lambda>r. os_fetched_at r < cutoff) (oddsSnapshots s)) ! j
                     \<and> d = \<lparr>os_id = os_id r, os_sportsbook_id = os_sportsbook_id r,
                     os_selection_id = os_selection_id r, os_odds_format = os_odds_format r,
                     os_odds_value = os_odds_value r, os_implied_prob = os_implied_prob r,
                     os_fetched_at = os_fetched_at r, archived_at = dateNow rt (Suc k + j)\<rparr>
                     \<and> accepts d \<and> os_id d \<notin> os_id ` set (oddsSnapshotArchive s)))
        \<and> (\<forall>j r. j < length (filter (\<lambda>r. os_fetched_at r < cutoff) (oddsSnapshots s)) \<and> r = (filter (\<lambda>r. os_fetched_at r < cutoff) (oddsSnapshots s)) ! j
               \<and> accepts \<lparr>os_id = os_id r, os_sportsbook_id = os_sportsbook_id r,
                     os_selection_id = os_selection_id r, os_odds_format = os_odds_format r,
                     os_odds_value = os_odds_value r, os_implied_prob = os_implied_prob r,
                     os_fetched_at = os_fetched_at r, archived_at = dateNow rt (Suc k + j)\<rparr>
               \<longrightarrow> os_id r \<in> os_id ` set (oddsSnapshotArchive s'))
        \<and> (distinct (map os_id (oddsSnapshotArchive s)) \<longrightarrow> distinct (map os_id (oddsSnapshotArchive s')))
        \<and> s'\<lparr>oddsSnapshots := oddsSnapshots s, oddsSnapshotArchive := oddsSnapshotArchive s\<rparr> = s
        \<and> (cutoffDate (dateNow rt k') daysOld2 = Some cutoff2 \<longrightarrow>
              fst (archiveOldSnapshots rt accepts2 k' daysOld2 s')
                = Inr \<lparr>archived = length (filter (\<lambda>r. os_fetched_at r < cutoff2) (oddsSnapshots s'))\<rparr>
              \<and> (\<forall>r \<in> set (filter (\<lambda>r. os_fetched_at r < cutoff2) (oddsSnapshots s')).
                    cutoff \<le> os_fetched_at r \<and> os_fetched_at r < cutoff2)
              \<and> (cutoff2 \<le> cutoff \<longrightarrow>
                    archiveOldSnapshots rt accepts2 k' daysOld2 s' = (Inr \<lparr>archived = 0\<rparr>, s', Suc k')))"
proof -
  define old where "old = filter (\<lambda>r. os_fetched_at r < cutoff) (oddsSnapshots s)"
  define docs where
    "docs = map (\<lambda>(o', j). toArchive o' (dateNow rt (Suc k + j))) (zip old [0 ..< length old])"
  define hot' where "hot' = filter (\<lambda>r. os_id r \<notin> set (map os_id old)) (oddsSnapshots s)"
  have step: "(res, s', k') =
      (if old = [] then (Inr \<lparr>archived = 0\<rparr>, s, Suc k)
       else (Inr \<lparr>archived = length old\<rparr>,
             s\<lparr>oddsSnapshotArchive := insertManyUnordered accepts docs (oddsSnapshotArchive s),
               oddsSnapshots := hot'\<rparr>,
             Suc k + length old))"
    using archive_step [OF c, of accepts s] run by (simp add: Let_def old_def docs_def hot'_def)
  have hot_nothing: "hot' = oddsSnapshots s" if "old = []"
    using that by (simp add: hot'_def)
  have res: "res = Inr \<lparr>archived = length old\<rparr>" using step by (auto split: if_splits)
  have same: "old = [] \<longrightarrow> s' = s \<and> k' = Suc k" using step by (auto split: if_splits)
  have hot: "oddsSnapshots s' = hot'" using step hot_nothing by (auto split: if_splits)
  have hot_ids: "oddsSnapshots s' = filter (\<lambda>r. os_id r \<notin> os_id ` set old) (oddsSnapshots s)"
    using hot by (simp add: hot'_def)
  have hot_fresh: "\<forall>r \<in> set (oddsSnapshots s'). cutoff \<le> os_fetched_at r"
    unfolding hot hot'_def old_def by (rule hot_after_delete)
  have hot_distinct: "distinct (map os_id (oddsSnapshots s)) \<longrightarrow>
      oddsSnapshots s' = filter (\<lambda>r. \<not> os_fetched_at r < cutoff) (oddsSnapshots s)"
    unfolding hot hot'_def old_def using hot_after_delete_distinct by blast
  have arch: "oddsSnapshotArchive s' =
      (if old = [] then oddsSnapshotArchive s
       else insertManyUnordered accepts docs (oddsSnapshotArchive s))"
    using step by (auto split: if_splits)
  have docs_empty: "docs = []" if "old = []" using that by (simp add: docs_def)
  have arch': "oddsSnapshotArchive s' = insertManyUnordered accepts docs (oddsSnapshotArchive s)"
    using arch docs_empty by (simp add: insertManyUnordered_def)
  have member: "d \<in> set docs \<longleftrightarrow> (\<exists>j < length old. d = toArchive (old ! j) (dateNow rt (Suc k + j)))" for d
    unfolding docs_def by (rule archive_docs_member)
  have grows: "\<exists>new. oddsSnapshotArchive s' = oddsSnapshotArchive s @ new
       \<and> (\<forall>d \<in> set new. \<exists>j r. j < length old \<and> r = old ! j
             \<and> d = \<lparr>os_id = os_id r, os_sportsbook_id = os_sportsbook_id r,
                     os_selection_id = os_selection_id r, os_odds_format = os_odds_format r,
                     os_odds_value = os_odds_value r, os_implied_prob = os_implied_prob r,
                     os_fetched_at = os_fetched_at r, archived_at = dateNow rt (Suc k + j)\<rparr>
             \<and> accepts d \<and> os_id d \<notin> os_id ` set (oddsSnapshotArchive s))"
  proof -
    obtain new where n: "insertManyUnordered accepts docs (oddsSnapshotArchive s) = oddsSnapshotArchive s @ new"
      "\<forall>d \<in> set new. d \<in> set docs \<and> accepts d \<and> os_id d \<notin> os_id ` set (oddsSnapshotArchive s)"
      using insertMany_new by blast
    have "\<forall>d \<in> set new. \<exists>j r. j < length old \<and> r = old ! j
             \<and> d = \<lparr>os_id = os_id r, os_sportsbook_id = os_sportsbook_id r,
                     os_selection_id = os_selection_id r, os_odds_format = os_odds_format r,
                     os_odds_value = os_odds_value r, os_implied_prob = os_implied_prob r,
                     os_fetched_at = os_fetched_at r, archived_at = dateNow rt (Suc k + j)\<rparr>
             \<and> accepts d \<and> os_id d \<notin> os_id ` set (oddsSnapshotArchive s)"
    proof
      fix d
      assume d: "d \<in> set new"
      with n(2) have a: "d \<in> set docs" "accepts d" "os_id d \<notin> os_id ` set (oddsSnapshotArchive s)"
        by simp_all
      from a(1) obtain j where j: "j < length old" "d = toArchive (old ! j) (dateNow rt (Suc k + j))"
        using member by blast
      with a(2,3) show "\<exists>j r. j < length old \<and> r = old ! j
             \<and> d = \<lparr>os_id = os_id r, os_sportsbook_id = os_sportsbook_id r,
                     os_selection_id = os_selection_id r, os_odds_format = os_odds_format r,
                     os_odds_value = os_odds_value r, os_implied_prob = os_implied_prob r,
                     os_fetched_at = os_fetched_at r, archived_at = dateNow rt (Suc k + j)\<rparr>
             \<and> accepts d \<and> os_id d \<notin> os_id ` set (oddsSnapshotArchive s)"
        by (auto simp: toArchive_def)
    qed
    with n(1) arch' show ?thesis by auto
  qed
  have taken: "\<forall>j r. j < length old \<and> r = old ! j
               \<and> accepts \<lparr>os_id = os_id r, os_sportsbook_id = os_sportsbook_id r,
                     os_selection_id = os_selection_id r, os_odds_format = os_odds_format r,
                     os_odds_value = os_odds_value r, os_implied_prob = os_implied_prob r,
                     os_fetched_at = os_fetched_at r, archived_at = dateNow rt (Suc k + j)\<rparr>
               \<longrightarrow> os_id r \<in> os_id ` set (oddsSnapshotArchive s')"
  proof (intro allI impI)
    fix j r
    assume a: "j < length old \<and> r = old ! j
               \<and> accepts \<lparr>os_id = os_id r, os_sportsbook_id = os_sportsbook_id r,
                     os_selection_id = os_selection_id r, os_odds_format = os_odds_format r,
                     os_odds_value = os_odds_value r, os_implied_prob = os_implied_prob r,
                     os_fetched_at = os_fetched_at r, archived_at = dateNow rt (Suc k + j)\<rparr>"
    then have "toArchive (old ! j) (dateNow rt (Suc k + j)) \<in> set docs" using member by blast
    moreover have "accepts (toArchive (old ! j) (dateNow rt (Suc k + j)))"
      using a by (auto simp: toArchive_def)
    ultimately have "os_id (toArchive (old ! j) (dateNow rt (Suc k + j)))
        \<in> os_id ` set (insertManyUnordered accepts docs (oddsSnapshotArchive s))"
      by (rule insertMany_archives_accepted)
    then show "os_id r \<in> os_id ` set (oddsSnapshotArchive s')"
      using a arch' by (auto simp: toArchive_def)
  qed
  have dist: "distinct (map os_id (oddsSnapshotArchive s)) \<longrightarrow> distinct (map os_id (oddsSnapshotArchive s'))"
    unfolding arch' using insertMany_distinct by blast
  have others: "s'\<lparr>oddsSnapshots := oddsSnapshots s, oddsSnapshotArchive := oddsSnapshotArchive s\<rparr> = s"
    using step by (auto split: if_splits)
  have rerun: "cutoffDate (dateNow rt k') daysOld2 = Some cutoff2 \<longrightarrow>
              fst (archiveOldSnapshots rt accepts2 k' daysOld2 s')
                = Inr \<lparr>archived = length (filter (\<lambda>r. os_fetched_at r < cutoff2) (oddsSnapshots s'))\<rparr>
              \<and> (\<forall>r \<in> set (filter (\<lambda>r. os_fetched_at r < cutoff2) (oddsSnapshots s')).
                    cutoff \<le> os_fetched_at r \<and> os_fetched_at r < cutoff2)
              \<and> (cutoff2 \<le> cutoff \<longrightarrow>
                    archiveOldSnapshots rt accepts2 k' daysOld2 s' = (Inr \<lparr>archived = 0\<rparr>, s', Suc k'))"
  proof
    assume c2: "cutoffDate (dateNow rt k') daysOld2 = Some cutoff2"
    have r1: "fst (archiveOldSnapshots rt accepts2 k' daysOld2 s')
                = Inr \<lparr>archived = length (filter (\<lambda>r. os_fetched_at r < cutoff2) (oddsSnapshots s'))\<rparr>"
      by (simp add: archive_step [OF c2] Let_def)
    have r2: "\<forall>r \<in> set (filter (\<lambda>r. os_fetched_at r < cutoff2) (oddsSnapshots s')).
                    cutoff \<le> os_fetched_at r \<and> os_fetched_at r < cutoff2"
      using hot_fresh by simp
    have r3: "cutoff2 \<le> cutoff \<longrightarrow>
                    archiveOldSnapshots rt accepts2 k' daysOld2 s' = (Inr \<lparr>archived = 0\<rparr>, s', Suc k')"
    proof
      assume le: "cutoff2 \<le> cutoff"
      have "filter (\<lambda>r. os_fetched_at r < cutoff2) (oddsSnapshots s') = []"
        using hot_fresh le by (auto simp: filter_empty_conv)
      then show "archiveOldSnapshots rt accepts2 k' daysOld2 s' = (Inr \<lparr>archived = 0\<rparr>, s', Suc k')"
        by (simp add: archive_step [OF c2] Let_def)
    qed
    from r1 r2 r3 show "fst (archiveOldSnapshots rt accepts2 k' daysOld2 s')
                = Inr \<lparr>archived = length (filter (\<lambda>r. os_fetched_at r < cutoff2) (oddsSnapshots s'))\<rparr>
              \<and> (\<forall>r \<in> set (filter (\<lambda>r. os_fetched_at r < cutoff2) (oddsSnapshots s')).
                    cutoff \<le> os_fetched_at r \<and> os_fetched_at r < cutoff2)
              \<and> (cutoff2 \<le> cutoff \<longrightarrow>
                    archiveOldSnapshots rt accepts2 k' daysOld2 s' = (Inr \<lparr>archived = 0\<rparr>, s', Suc k'))"
      by (intro conjI)
  qed
  show ?thesis
    unfolding old_def [symmetric]
    by (intro conjI res same hot_ids hot_distinct hot_fresh grows taken dist others rerun)
qed

text \<open>
  Claim C5, as the code has it. The cutoff is \<open>now - daysOld * 86400000\<close> milliseconds,
  computed on doubles and truncated to whole milliseconds; for a whole number of days (up
  to \<open>10^8\<close>) and a clock within the range of dates it is exactly \<open>now\<close> minus that many
  days. Where the cutoff is no valid date the call fails with the cast error of the query
  and changes nothing. Otherwise \<open>archiveOldSnapshots\<close> selects exactly the hot
  snapshots fetched strictly before the cutoff and returns their number. If there are
  none, nothing changes. Otherwise the archive keeps what it had and gains copies of
  selected rows, each with all the fields of the row and its own reading of the clock as
  archive time; a copy whose id is already archived, or that the store refuses, is
  skipped without an error, and a copy the store takes is archived; ids stay unique in
  the archive. Whatever the archive did, every hot row with a selected id is deleted
  (with unique ids: exactly the selected rows). No other collection changes. Afterwards
  no hot snapshot is older than the cutoff. A re-run selects the hot rows before its own
  cutoff, all of them fetched at or after the first cutoff: it archives 0 and changes
  nothing if its cutoff is not later than the first one.
\<close>

theorem archiveOldSnapshots_sweep:
  "(0 \<le> now \<and> now \<le> 8640000000000000 \<and> n \<le> 100000000 \<longrightarrow>
      cutoffDate now (Fin (of_nat n)) = Some (now - int n * 86400000))
   \<and> (cutoffDate now daysOld = Some c \<longleftrightarrow>
        (\<exists>x. jsSub (Fin (of_int now))
                (jsMul (jsMul (jsMul (jsMul daysOld (Fin 24)) (Fin 60)) (Fin 60)) (Fin 1000)) = Fin x
            \<and> \<bar>x\<bar> \<le> 8640000000000000 \<and> c = truncRat x))
   \<and> (cutoffDate (dateNow rt k) daysOld = None \<longrightarrow>
        archiveOldSnapshots rt accepts k daysOld s = (Inl castError, s, Suc k))
   \<and> (cutoffDate (dateNow rt k) daysOld = Some cutoff
        \<and> archiveOldSnapshots rt accepts k daysOld s = (res, s', k') \<longrightarrow>
  res = Inr \<lparr>archived = length (filter (\<lambda>r. os_fetched_at r < cutoff) (oddsSnapshots s))\<rparr>
          \<and> (filter (\<lambda>r. os_fetched_at r < cutoff) (oddsSnapshots s) = [] \<longrightarrow> s' = s \<and> k' = Suc k)
          \<and> oddsSnapshots s' = filter (\<lambda>r. os_id r \<notin> os_id ` set (filter (\<lambda>r. os_fetched_at r < cutoff) (oddsSnapshots s))) (oddsSnapshots s)
          \<and> (distinct (map os_id (oddsSnapshots s)) \<longrightarrow>
                oddsSnapshots s' = filter (\<lambda>r. \<not> os_fetched_at r < cutoff) (oddsSnapshots s))
          \<and> (\<forall>r \<in> set (oddsSnapshots s'). cutoff \<le> os_fetched_at r)
          \<and> (\<exists>new. oddsSnapshotArchive s' = oddsSnapshotArchive s @ new
                 \<and> (\<forall>d \<in> set new. \<exists>j r. j < length (filter (\<lambda>r. os_fetched_at r < cutoff) (oddsSnapshots s)) \<and> r = (filter (\<lambda>r. os_fetched_at r < cutoff) (oddsSnapshots s)) ! j
                       \<and> d = \<lparr>os_id = os_id r, os_sportsbook_id = os_sportsbook_id r,
                       os_selection_id = os_selection_id r, os_odds_format = os_odds_format r,
                       os_odds_value = os_odds_value r, os_implied_prob = os_implied_prob r,
                       os_fetched_at = os_fetched_at r, archived_at = dateNow rt (Suc k + j)\<rparr>
                       \<and> accepts d \<and> os_id d \<notin> os_id ` set (oddsSnapshotArchive s)))
          \<and> (\<forall>j r. j < length (filter (\<lambda>r. os_fetched_at r < cutoff) (oddsSnapshots s)) \<and> r = (filter (\<lambda>r. os_fetched_at r < cutoff) (oddsSnapshots s)) ! j
                 \<and> accepts \<lparr>os_id = os_id r, os_sportsbook_id = os_sportsbook_id r,
                       os_selection_id = os_selection_id r, os_odds_format = os_odds_format r,
                       os_odds_value = os_odds_value r, os_implied_prob = os_implied_prob r,
                       os_fetched_at = os_fetched_at r, archived_at = dateNow rt (Suc k + j)\<rparr>
                 \<longrightarrow> os_id r \<in> os_id ` set (oddsSnapshotArchive s'))
          \<and> (distinct (map os_id (oddsSnapshotArchive s)) \<longrightarrow> distinct (map os_id (oddsSnapshotArchive s')))
          \<and> s'\<lparr>oddsSnapshots := oddsSnapshots s, oddsSnapshotArchive := oddsSnapshotArchive s\<rparr> = s
          \<and> (cutoffDate (dateNow rt k') daysOld2 = Some cutoff2 \<longrightarrow>
                fst (archiveOldSnapshots rt accepts2 k' daysOld2 s')
                  = Inr \<lparr>archived = length (filter (\<lambda>r. os_fetched_at r < cutoff2) (oddsSnapshots s'))\<rparr>
                \<and> (\<forall>r \<in> set (filter (\<lambda>r. os_fetched_at r < cutoff2) (oddsSnapshots s')).
                      cutoff \<le> os_fetched_at r \<and> os_fetched_at r < cutoff2)
                \<and> (cutoff2 \<le> cutoff \<longrightarrow>
                      archiveOldSnapshots rt accepts2 k' daysOld2 s' = (Inr \<lparr>archived = 0\<rparr>, s', Suc k'))))"
proof -
  have a: "0 \<le> now \<and> now \<le> 8640000000000000 \<and> n \<le> 100000000 \<longrightarrow>
      cutoffDate now (Fin (of_nat n)) = Some (now - int n * 86400000)"
    using cutoffDate_whole_days by blast
  have b: "cutoffDate now daysOld = Some c \<longleftrightarrow>
        (\<exists>x. jsSub (Fin (of_int now))
                (jsMul (jsMul (jsMul (jsMul daysOld (Fin 24)) (Fin 60)) (Fin 60)) (Fin 1000)) = Fin x
            \<and> \<bar>x\<bar> \<le> 8640000000000000 \<and> c = truncRat x)"
    by (rule cutoffDate_explicit)
  have c: "cutoffDate (dateNow rt k) daysOld = None \<longrightarrow>
        archiveOldSnapshots rt accepts k daysOld s = (Inl castError, s, Suc k)"
    using archive_invalid by blast
  have d: "cutoffDate (dateNow rt k) daysOld = Some cutoff
        \<and> archiveOldSnapshots rt accepts k daysOld s = (res, s', k') \<longrightarrow>
  res = Inr \<lparr>archived = length (filter (\<lambda>r. os_fetched_at r < cutoff) (oddsSnapshots s))\<rparr>
          \<and> (filter (\<lambda>r. os_fetched_at r < cutoff) (oddsSnapshots s) = [] \<longrightarrow> s' = s \<and> k' = Suc k)
          \<and> oddsSnapshots s' = filter (\<lambda>r. os_id r \<notin> os_id ` set (filter (\<lambda>r. os_fetched_at r < cutoff) (oddsSnapshots s))) (oddsSnapshots s)
          \<and> (distinct (map os_id (oddsSnapshots s)) \<longrightarrow>
                oddsSnapshots s' = filter (\<lambda>r. \<not> os_fetched_at r < cutoff) (oddsSnapshots s))
          \<and> (\<forall>r \<in> set (oddsSnapshots s'). cutoff \<le> os_fetched_at r)
          \<and> (\<exists>new. oddsSnapshotArchive s' = oddsSnapshotArchive s @ new
                 \<and> (\<forall>d \<in> set new. \<exists>j r. j < length (filter (\<lambda>r. os_fetched_at r < cutoff) (oddsSnapshots s)) \<and> r = (filter (\<lambda>r. os_fetched_at r < cutoff) (oddsSnapshots s)) ! j
                       \<and> d = \<lparr>os_id = os_id r, os_sportsbook_id = os_sportsbook_id r,
                       os_selection_id = os_selection_id r, os_odds_format = os_odds_format r,
                       os_odds_value = os_odds_value r, os_implied_prob = os_implied_prob r,
                       os_fetched_at = os_fetched_at r, archived_at = dateNow rt (Suc k + j)\<rparr>
                       \<and> accepts d \<and> os_id d \<notin> os_id ` set (oddsSnapshotArchive s)))
          \<and> (\<forall>j r. j < length (filter (\<lambda>r. os_fetched_at r < cutoff) (oddsSnapshots s)) \<and> r = (filter (\<lambda>r. os_fetched_at r < cutoff) (oddsSnapshots s)) ! j
                 \<and> accepts \<lparr>os_id = os_id r, os_sportsbook_id = os_sportsbook_id r,
                       os_selection_id = os_selection_id r, os_odds_format = os_odds_format r,
                       os_odds_value = os_odds_value r, os_implied_prob = os_implied_prob r,
                       os_fetched_at = os_fetched_at r, archived_at = dateNow rt (Suc k + j)\<rparr>
                 \<longrightarrow> os_id r \<in> os_id ` set (oddsSnapshotArchive s'))
          \<and> (distinct (map os_id (oddsSnapshotArchive s)) \<longrightarrow> distinct (map os_id (oddsSnapshotArchive s')))
          \<and> s'\<lparr>oddsSnapshots := oddsSnapshots s, oddsSnapshotArchive := oddsSnapshotArchive s\<rparr> = s
          \<and> (cutoffDate (dateNow rt k') daysOld2 = Some cutoff2 \<longrightarrow>
                fst (archiveOldSnapshots rt accepts2 k' daysOld2 s')
                  = Inr \<lparr>archived = length (filter (\<lambda>r. os_fetched_at r < cutoff2) (oddsSnapshots s'))\<rparr>
                \<and> (\<forall>r \<in> set (filter (\<lambda>r. os_fetched_at r < cutoff2) (oddsSnapshots s')).
                      cutoff \<le> os_fetched_at r \<and> os_fetched_at r < cutoff2)
                \<and> (cutoff2 \<le> cutoff \<longrightarrow>
                      archiveOldSnapshots rt accepts2 k' daysOld2 s' = (Inr \<lparr>archived = 0\<rparr>, s', Suc k')))"
  proof
    assume h: "cutoffDate (dateNow rt k) daysOld = Some cutoff
        \<and> archiveOldSnapshots rt accepts k daysOld s = (res, s', k')"
    from h have h1: "cutoffDate (dateNow rt k) daysOld = Some cutoff"
      and h2: "archiveOldSnapshots rt accepts k daysOld s = (res, s', k')" by simp_all
    from h1 h2 show "res = Inr \<lparr>archived = length (filter (\<lambda>r. os_fetched_at r < cutoff) (oddsSnapshots s))\<rparr>
        \<and> (filter (\<lambda>r. os_fetched_at r < cutoff) (oddsSnapshots s) = [] \<longrightarrow> s' = s \<and> k' = Suc k)
        \<and> oddsSnapshots s' = filter (\<lambda>r. os_id r \<notin> os_id ` set (filter (\<lambda>r. os_fetched_at r < cutoff) (oddsSnapshots s))) (oddsSnapshots s)
        \<and> (distinct (map os_id (oddsSnapshots s)) \<longrightarrow>
              oddsSnapshots s' = filter (\<lambda>r. \<not> os_fetched_at r < cutoff) (oddsSnapshots s))
        \<and> (\<forall>r \<in> set (oddsSnapshots s'). cutoff \<le> os_fetched_at r)
        \<and> (\<exists>new. oddsSnapshotArchive s' = oddsSnapshotArchive s @ new
               \<and> (\<forall>d \<in> set new. \<exists>j r. j < length (filter (\<lambda>r. os_fetched_at r < cutoff) (oddsSnapshots s)) \<and> r = (filter (\<lambda>r. os_fetched_at r < cutoff) (oddsSnapshots s)) ! j
                     \<and> d = \<lparr>os_id = os_id r, os_sportsbook_id = os_sportsbook_id r,
                     os_selection_id = os_selection_id r, os_odds_format = os_odds_format r,
                     os_odds_value = os_odds_value r, os_implied_prob = os_implied_prob r,
                     os_fetched_at = os_fetched_at r, archived_at = dateNow rt (Suc k + j)\<rparr>
                     \<and> accepts d \<and> os_id d \<notin> os_id ` set (oddsSnapshotArchive s)))
        \<and> (\<forall>j r. j < length (filter (\<lambda>r. os_fetched_at r < cutoff) (oddsSnapshots s)) \<and> r = (filter (\<lambda>r. os_fetched_at r < cutoff) (oddsSnapshots s)) ! j
               \<and> accepts \<lparr>os_id = os_id r, os_sportsbook_id = os_sportsbook_id r,
                     os_selection_id = os_selection_id r, os_odds_format = os_odds_format r,
                     os_odds_value = os_odds_value r, os_implied_prob = os_implied_prob r,
                     os_fetched_at = os_fetched_at r, archived_at = dateNow rt (Suc k + j)\<rparr>
               \<longrightarrow> os_id r \<in> os_id ` set (oddsSnapshotArchive s'))
        \<and> (distinct (map os_id (oddsSnapshotArchive s)) \<longrightarrow> distinct (map os_id (oddsSnapshotArchive s')))
        \<and> s'\<lparr>oddsSnapshots := oddsSnapshots s, oddsSnapshotArchive := oddsSnapshotArchive s\<rparr> = s
        \<and> (cutoffDate (dateNow rt k') daysOld2 = Some cutoff2 \<longrightarrow>
              fst (archiveOldSnapshots rt accepts2 k' daysOld2 s')
                = Inr \<lparr>archived = length (filter (\<lambda>r. os_fetched_at r < cutoff2) (oddsSnapshots s'))\<rparr>
              \<and> (\<forall>r \<in> set (filter (\<lambda>r. os_fetched_at r < cutoff2) (oddsSnapshots s')).
                    cutoff \<le> os_fetched_at r \<and> os_fetched_at r < cutoff2)
              \<and> (cutoff2 \<le> cutoff \<longrightarrow>
                    archiveOldSnapshots rt accepts2 k' daysOld2 s' = (Inr \<lparr>archived = 0\<rparr>, s', Suc k')))"
      by (rule archive_sweep_valid)
  qed
  show ?thesis by (intro conjI a b c d)
qed

lemma frozen_now: "dateNow frozenRuntime k = 1700000000000"
  by (simp add: frozenRuntime_def sampleRuntime_def)

lemma sample_cutoff: "cutoffDate (dateNow frozenRuntime k) (Fin 7) = Some 1699395200000"
  using cutoffDate_whole_days [of 1700000000000 7] by (simp add: frozen_now)

lemma sample_now: "dateNow sampleRuntime k = 1700000000000 + int k"
  by (simp add: sampleRuntime_def)

lemma sample_cutoff_advancing:
  "cutoffDate (dateNow sampleRuntime 0) (Fin 7) = Some 1699395200000"
  "cutoffDate (dateNow sampleRuntime 2) (Fin 7) = Some 1699395200002"
  using cutoffDate_whole_days [of 1700000000000 7] cutoffDate_whole_days [of 1700000000002 7]
  by (simp_all add: sample_now)

lemma sample_cutoff_invalid: "cutoffDate now NaN = None"
  by (simp add: cutoffDate_def)

lemma sample_sweep:
  "archiveOldSnapshots frozenRuntime (\<lambda>d. True) 0 (Fin 7) sampleStore
     = (Inr \<lparr>archived = 1\<rparr>, sweptStore, 2)"
  by (simp add: archive_step [OF sample_cutoff] sampleStore_def sweptStore_def emptyStore_def
      sampleSnapshot_def Let_def insertManyUnordered_def insertOne_def toArchive_def
      frozen_now)

theorem archiveOldSnapshots_sweep_witness:
  "(0 :: int) \<le> 1700000000000 \<and> (1700000000000 :: int) \<le> 8640000000000000
   \<and> (7 :: nat) \<le> 100000000
   \<and> cutoffDate 1700000000000 (Fin 7) = Some 1699395200000
   \<and> jsSub (Fin 1700000000000) (jsMul (jsMul (jsMul (jsMul (Fin 7) (Fin 24)) (Fin 60)) (Fin 60)) (Fin 1000))
       = Fin 1699395200000
   \<and> cutoffDate (dateNow frozenRuntime 0) NaN = None
   \<and> archiveOldSnapshots frozenRuntime (\<lambda>d. True) 0 NaN sampleStore = (Inl castError, sampleStore, 1)
   \<and> cutoffDate (dateNow frozenRuntime 0) (Fin 7) = Some 1699395200000
   \<and> archiveOldSnapshots frozenRuntime (\<lambda>d. True) 0 (Fin 7) sampleStore
        = (Inr \<lparr>archived = 1\<rparr>, sweptStore, 2)
   \<and> filter (\<lambda>r. os_fetched_at r < 1699395200000) (oddsSnapshots sampleStore)
        = [sampleSnapshot 1 1600000000000]
   \<and> distinct (map os_id (oddsSnapshots sampleStore))
   \<and> oddsSnapshots sweptStore
       = filter (\<lambda>r. \<not> os_fetched_at r < 1699395200000) (oddsSnapshots sampleStore)
   \<and> oddsSnapshots sweptStore = [sampleSnapshot 2 1699999999000]
   \<and> oddsSnapshotArchive sweptStore
       = oddsSnapshotArchive sampleStore @
         [\<lparr>os_id = 1, os_sportsbook_id = ''book:dk'', os_selection_id = ''sel:x'',
          os_odds_format = AMERICAN, os_odds_value = Fin 100, os_implied_prob = Fin (1 / 2),
          os_fetched_at = 1600000000000, archived_at = 1700000000000\<rparr>]
   \<and> os_id (sampleSnapshot 1 1600000000000) \<in> os_id ` set (oddsSnapshotArchive sweptStore)
   \<and> distinct (map os_id (oddsSnapshotArchive sampleStore))
   \<and> distinct (map os_id (oddsSnapshotArchive sweptStore))
   \<and> cutoffDate (dateNow frozenRuntime 2) (Fin 7) = Some 1699395200000
   \<and> (1699395200000 :: int) \<le> 1699395200000
   \<and> archiveOldSnapshots frozenRuntime (\<lambda>d. True) 2 (Fin 7) sweptStore
        = (Inr \<lparr>archived = 0\<rparr>, sweptStore, 3)"
proof -
  have n: "(0 :: int) \<le> 1700000000000" "(1700000000000 :: int) \<le> 8640000000000000"
    "(7 :: nat) \<le> 100000000" "(1699395200000 :: int) \<le> 1699395200000"
    by simp_all
  have c0: "cutoffDate 1700000000000 (Fin 7) = Some 1699395200000"
    using archiveOldSnapshots_sweep [where now = 1700000000000 and n = 7, THEN conjunct1] by simp
  have x: "jsSub (Fin 1700000000000)
             (jsMul (jsMul (jsMul (jsMul (Fin 7) (Fin 24)) (Fin 60)) (Fin 60)) (Fin 1000))
           = Fin 1699395200000"
    using whole_days_product [of 7] jsSub_of_int [of 1700000000000 604800000] by simp
  have inv: "cutoffDate (dateNow frozenRuntime 0) NaN = None" by (rule sample_cutoff_invalid)
  have thrown: "archiveOldSnapshots frozenRuntime (\<lambda>d. True) 0 NaN sampleStore
      = (Inl castError, sampleStore, 1)"
    using archiveOldSnapshots_sweep [where rt = frozenRuntime and k = 0 and daysOld = NaN
        and accepts = "\<lambda>d. True" and s = sampleStore,
        THEN conjunct2, THEN conjunct2, THEN conjunct1, rule_format, OF inv]
    by simp
  have a: "oddsSnapshots sweptStore = [sampleSnapshot 2 1699999999000]"
    "os_id (sampleSnapshot 1 1600000000000) \<in> os_id ` set (oddsSnapshotArchive sweptStore)"
    "distinct (map os_id (oddsSnapshots sampleStore))"
    "filter (\<lambda>r. os_fetched_at r < 1699395200000) (oddsSnapshots sampleStore)
        = [sampleSnapshot 1 1600000000000]"
    "oddsSnapshotArchive sweptStore
       = oddsSnapshotArchive sampleStore @
         [\<lparr>os_id = 1, os_sportsbook_id = ''book:dk'', os_selection_id = ''sel:x'',
          os_odds_format = AMERICAN, os_odds_value = Fin 100, os_implied_prob = Fin (1 / 2),
          os_fetched_at = 1600000000000, archived_at = 1700000000000\<rparr>]"
    "distinct (map os_id (oddsSnapshotArchive sampleStore))"
    by (simp_all add: sweptStore_def sampleStore_def emptyStore_def toArchive_def sampleSnapshot_def)
  note t = archiveOldSnapshots_sweep [where rt = frozenRuntime and k = 0 and daysOld = "Fin 7"
        and accepts = "\<lambda>d. True" and s = sampleStore and cutoff = 1699395200000
        and res = "Inr \<lparr>archived = 1\<rparr>" and s' = sweptStore and k' = 2
        and ?daysOld2.0 = "Fin 7" and ?cutoff2.0 = 1699395200000 and ?accepts2.0 = "\<lambda>d. True",
        THEN conjunct2, THEN conjunct2, THEN conjunct2, rule_format,
        OF conjI [OF sample_cutoff sample_sweep]]
  have b: "oddsSnapshots sweptStore
       = filter (\<lambda>r. \<not> os_fetched_at r < 1699395200000) (oddsSnapshots sampleStore)"
    using t a(3) by blast
  have d: "distinct (map os_id (oddsSnapshotArchive sweptStore))"
    using t a(6) by blast
  have c: "archiveOldSnapshots frozenRuntime (\<lambda>d. True) 2 (Fin 7) sweptStore
        = (Inr \<lparr>archived = 0\<rparr>, sweptStore, 3)"
    using t sample_cutoff [of 2] by simp
  show ?thesis
    by (intro conjI n(1,2,3) c0 x inv thrown sample_cutoff sample_sweep a(4) a(3) b a(1) a(5) a(2) a(6) d n(4) c)
qed

text \<open>
  The claim as stated fails at the re-run. Each run takes its cutoff from its own
  reading of the clock; on a clock that advances, the cutoff of the re-run is later, and
  a hot row fetched between the two cutoffs is archived by the re-run: here the first
  run archives one row and the re-run, two milliseconds later, archives the other.
\<close>

theorem archiveOldSnapshots_rerun_archives_again:
  "cutoffDate (dateNow sampleRuntime 0) (Fin 7) = Some 1699395200000
   \<and> archiveOldSnapshots sampleRuntime (\<lambda>d. True) 0 (Fin 7) gapStore
       = (Inr \<lparr>archived = 1\<rparr>,
          emptyStore\<lparr>oddsSnapshots := [sampleSnapshot 2 1699395200001],
                     oddsSnapshotArchive := [toArchive (sampleSnapshot 1 1600000000000) 1700000000001]\<rparr>,
          2)
   \<and> cutoffDate (dateNow sampleRuntime 2) (Fin 7) = Some 1699395200002
   \<and> archiveOldSnapshots sampleRuntime (\<lambda>d. True) 2 (Fin 7)
         (emptyStore\<lparr>oddsSnapshots := [sampleSnapshot 2 1699395200001],
                     oddsSnapshotArchive := [toArchive (sampleSnapshot 1 1600000000000) 1700000000001]\<rparr>)
       = (Inr \<lparr>archived = 1\<rparr>,
          emptyStore\<lparr>oddsSnapshots := [],
                     oddsSnapshotArchive := [toArchive (sampleSnapshot 1 1600000000000) 1700000000001,
                                             toArchive (sampleSnapshot 2 1699395200001) 1700000000003]\<rparr>,
          4)"
proof -
  have r1: "archiveOldSnapshots sampleRuntime (\<lambda>d. True) 0 (Fin 7) gapStore
       = (Inr \<lparr>archived = 1\<rparr>,
          emptyStore\<lparr>oddsSnapshots := [sampleSnapshot 2 1699395200001],
                     oddsSnapshotArchive := [toArchive (sampleSnapshot 1 1600000000000) 1700000000001]\<rparr>,
          2)"
    by (simp add: archive_step [OF sample_cutoff_advancing(1)] gapStore_def emptyStore_def
        sampleSnapshot_def Let_def insertManyUnordered_def insertOne_def toArchive_def
        sample_now)
  have r2: "archiveOldSnapshots sampleRuntime (\<lambda>d. True) 2 (Fin 7)
         (emptyStore\<lparr>oddsSnapshots := [sampleSnapshot 2 1699395200001],
                     oddsSnapshotArchive := [toArchive (sampleSnapshot 1 1600000000000) 1700000000001]\<rparr>)
       = (Inr \<lparr>archived = 1\<rparr>,
          emptyStore\<lparr>oddsSnapshots := [],
                     oddsSnapshotArchive := [toArchive (sampleSnapshot 1 1600000000000) 1700000000001,
                                             toArchive (sampleSnapshot 2 1699395200001) 1700000000003]\<rparr>,
          4)"
    by (simp add: archive_step [OF sample_cutoff_advancing(2)] emptyStore_def
        sampleSnapshot_def Let_def insertManyUnordered_def insertOne_def toArchive_def
        sample_now)
  show ?thesis by (intro conjI sample_cutoff_advancing r1 r2)
qed

text \<open>The eviction does not wait for the archive: a store that takes no document still loses the hot row.\<close>

lemma sweep_evicts_when_archive_refuses:
  "archiveOldSnapshots frozenRuntime (\<lambda>d. False) 0 (Fin 7) sampleStore
     = (Inr \<lparr>archived = 1\<rparr>,
        emptyStore\<lparr>oddsSnapshots := [sampleSnapshot 2 1699999999000]\<rparr>, 2)"
  by (simp add: archive_step [OF sample_cutoff] sampleStore_def emptyStore_def
      sampleSnapshot_def Let_def insertManyUnordered_def insertOne_def toArchive_def
      frozen_now)

section \<open>Cheat sheet: the best price per key\<close>

lemma map_of_upsertSet_fst:
  "map_of (upsertSet fst (k, v) m) k' = (if k' = k then Some v else map_of m k')"
  by (induction m) auto

lemma map_of_offer:
  "map_of (offer k c m) k' =
     (if k' = k then (case map_of m k of None \<Rightarrow> Some c
                      | Some e \<Rightarrow> Some (if replaces e c then c else e))
      else map_of m k')"
  by (simp add: offer_def map_of_upsertSet_fst split: option.splits)

lemma replaces_rank:
  "finitePrice e \<Longrightarrow> finitePrice c \<Longrightarrow> replaces e c \<longleftrightarrow> priceRank e < priceRank c"
  by (auto simp: replaces_def priceRank_def finitePrice_def split: option.splits jsnum.splits)

lemma candidateOf_finitePrice:
  "candidateOf rt sport market ev bk oc = Some (k, c) \<Longrightarrow> finitePrice c"
  by (auto simp: candidateOf_def Let_def finitePrice_def finiteOrNull_def
      split: if_splits option.splits)

lemma allCandidates_finitePrice:
  "(k, c) \<in> set (allCandidates rt sport market events) \<Longrightarrow> finitePrice c"
  by (auto simp: allCandidates_def bookmakerCandidates_def List.map_filter_def
      split: option.splits dest: candidateOf_finitePrice)

lemma fold_cheatStep:
  "fold (cheatStep rt sport market ev bk) ocs m
     = fold (\<lambda>(k, c). offer k c) (List.map_filter (candidateOf rt sport market ev bk) ocs) m"
proof (induction ocs arbitrary: m)
  case Nil
  then show ?case by simp
next
  case (Cons oc ocs)
  then show ?case
    by (cases "candidateOf rt sport market ev bk oc") (auto simp: cheatStep_def)
qed

lemma cheatOfBookmaker_offers:
  "cheatOfBookmaker rt sport market ev bm m
     = fold (\<lambda>(k, c). offer k c) (bookmakerCandidates rt sport market ev bm) m"
  by (simp add: cheatOfBookmaker_def bookmakerCandidates_def fold_cheatStep split: option.splits)

lemma fold_concat_lists: "fold f (concat xss) = fold (fold f) xss"
  by (induction xss) simp_all

lemma buildBestMap_offers:
  "buildBestMap rt sport market events
     = fold (\<lambda>(k, c). offer k c) (allCandidates rt sport market events) []"
proof -
  have b: "cheatOfBookmaker rt sport market ev = (\<lambda>bm. fold (\<lambda>(k, c). offer k c) (bookmakerCandidates rt sport market ev bm))" for ev
    by (simp add: fun_eq_iff cheatOfBookmaker_offers)
  have e: "cheatOfEvent rt sport market
      = (\<lambda>ev. fold (\<lambda>(k, c). offer k c) (concat (map (bookmakerCandidates rt sport market ev) (ev_bookmakers ev))))"
    by (simp add: fun_eq_iff cheatOfEvent_def b fold_concat_lists fold_map comp_def)
  show ?thesis
    by (simp add: buildBestMap_def allCandidates_def e fold_concat_lists fold_map comp_def)
qed

lemma offers_keep_best:
  assumes "\<forall>(k, c) \<in> set cs. finitePrice c"
  shows "case map_of (fold (\<lambda>(k, c). offer k c) cs []) key of
           None \<Rightarrow> key \<notin> fst ` set cs
         | Some row \<Rightarrow>
             \<exists>pre post. cs = pre @ (key, row) # post
               \<and> (\<forall>(k, c) \<in> set pre. k = key \<longrightarrow> priceRank c < priceRank row)
               \<and> (\<forall>(k, c) \<in> set post. k = key \<longrightarrow> priceRank c \<le> priceRank row)"
  using assms
proof (induction cs rule: rev_induct)
  case Nil
  then show ?case by simp
next
  case (snoc x cs)
  let ?best = "\<lambda>cs row. \<exists>pre post. cs = pre @ (key, row) # post
               \<and> (\<forall>(k, c) \<in> set pre. k = key \<longrightarrow> priceRank c < priceRank row)
               \<and> (\<forall>(k, c) \<in> set post. k = key \<longrightarrow> priceRank c \<le> priceRank row)"
  obtain k c where x: "x = (k, c)" by force
  define m where "m = fold (\<lambda>(k, c). offer k c) cs []"
  have fin: "\<forall>(k, c) \<in> set cs. finitePrice c" "finitePrice c" using snoc.prems x by auto
  have ih: "case map_of m key of None \<Rightarrow> key \<notin> fst ` set cs | Some row \<Rightarrow> ?best cs row"
    unfolding m_def using snoc.IH fin(1) by simp
  have step: "fold (\<lambda>(k, c). offer k c) (cs @ [x]) [] = offer k c m" by (simp add: x m_def)
  have goal: "case map_of (offer k c m) key of
                None \<Rightarrow> key \<notin> fst ` set (cs @ [x]) | Some row \<Rightarrow> ?best (cs @ [x]) row"
  proof (cases "key = k")
    case False
    then have same: "map_of (offer k c m) key = map_of m key" by (simp add: map_of_offer)
    show ?thesis
    proof (cases "map_of m key")
      case None
      with ih False show ?thesis by (simp add: same x)
    next
      case (Some row)
      with ih obtain pre post where p: "cs = pre @ (key, row) # post"
        "\<forall>(k, c) \<in> set pre. k = key \<longrightarrow> priceRank c < priceRank row"
        "\<forall>(k, c) \<in> set post. k = key \<longrightarrow> priceRank c \<le> priceRank row" by auto
      have "cs @ [x] = pre @ (key, row) # (post @ [x])" using p(1) by simp
      moreover have "\<forall>(k, c) \<in> set (post @ [x]). k = key \<longrightarrow> priceRank c \<le> priceRank row"
        using p(3) False x by auto
      ultimately have "?best (cs @ [x]) row" using p(2) by blast
      then show ?thesis by (simp only: same Some option.case)
    qed
  next
    case True
    show ?thesis
    proof (cases "map_of m key")
      case None
      with ih have fresh: "key \<notin> fst ` set cs" by simp
      have new: "map_of (offer k c m) key = Some c" using None True by (simp add: map_of_offer)
      have "cs @ [x] = cs @ (key, c) # []" using x True by simp
      moreover have "\<forall>(k', c') \<in> set cs. k' = key \<longrightarrow> priceRank c' < priceRank c"
        using fresh by force
      moreover have "\<forall>(k', c') \<in> set []. k' = key \<longrightarrow> priceRank c' \<le> priceRank c" by simp
      ultimately have "?best (cs @ [x]) c" by blast
      then show ?thesis by (simp only: new option.case)
    next
      case (Some row)
      with ih obtain pre post where p: "cs = pre @ (key, row) # post"
        "\<forall>(k, c) \<in> set pre. k = key \<longrightarrow> priceRank c < priceRank row"
        "\<forall>(k, c) \<in> set post. k = key \<longrightarrow> priceRank c \<le> priceRank row" by auto
      have finrow: "finitePrice row" using fin(1) p(1) by auto
      show ?thesis
      proof (cases "replaces row c")
        case True
        then have better: "priceRank row < priceRank c"
          using replaces_rank [OF finrow fin(2)] by simp
        have new: "map_of (offer k c m) key = Some c"
          using Some \<open>key = k\<close> True by (simp add: map_of_offer)
        have "cs @ [x] = cs @ (key, c) # []" using x \<open>key = k\<close> by simp
        moreover have "\<forall>(k', c') \<in> set cs. k' = key \<longrightarrow> priceRank c' < priceRank c"
          using p better by (auto simp: less_le_trans)
        moreover have "\<forall>(k', c') \<in> set []. k' = key \<longrightarrow> priceRank c' \<le> priceRank c" by simp
        ultimately have "?best (cs @ [x]) c" by blast
        then show ?thesis by (simp only: new option.case)
      next
        case False
        then have nb: "priceRank c \<le> priceRank row"
          using replaces_rank [OF finrow fin(2)] by simp
        have old: "map_of (offer k c m) key = Some row"
          using Some \<open>key = k\<close> False by (simp add: map_of_offer)
        have "cs @ [x] = pre @ (key, row) # (post @ [x])" using p(1) by simp
        moreover have "\<forall>(k, c) \<in> set (post @ [x]). k = key \<longrightarrow> priceRank c \<le> priceRank row"
          using p(3) nb x by auto
        ultimately have "?best (cs @ [x]) row" using p(2) by blast
        then show ?thesis by (simp only: old option.case)
      qed
    qed
  qed
  then show ?case by (simp only: step)
qed

lemma isFinite_iff: "isFinite v \<longleftrightarrow> (\<exists>p. v = Fin p)"
  by (cases v) simp_all

lemma replaces_explicit:
  "finitePrice existing \<Longrightarrow> finitePrice candidate \<Longrightarrow>
     replaces existing candidate \<longleftrightarrow>
       (\<exists>p. cs_bestPrice candidate = Some (Fin p)
          \<and> (cs_bestPrice existing = None \<or> (\<exists>q. cs_bestPrice existing = Some (Fin q) \<and> q < p)))"
  by (auto simp: replaces_def finitePrice_def isFinite_iff split: option.splits)


subsection \<open>The keys of the map\<close>

lemma keys_upsertSet:
  "map fst (upsertSet fst (k, v) m) = (if k \<in> fst ` set m then map fst m else map fst m @ [k])"
  by (induction m) auto

lemma keys_offer:
  "map fst (offer k c m) = (if k \<in> fst ` set m then map fst m else map fst m @ [k])"
proof (cases "map_of m k")
  case None
  then have "k \<notin> fst ` set m" by (simp add: map_of_eq_None_iff)
  with None show ?thesis by (simp add: offer_def keys_upsertSet)
next
  case (Some e)
  then have "k \<in> fst ` set m" by (metis map_of_eq_None_iff option.distinct(1))
  with Some show ?thesis by (simp add: offer_def keys_upsertSet)
qed

lemma keys_fold_offer:
  "map fst (fold (\<lambda>(k, c). offer k c) cs []) = rev (remdups (rev (map fst cs)))"
proof (induction cs rule: rev_induct)
  case Nil
  then show ?case by simp
next
  case (snoc x cs)
  obtain k c where x: "x = (k, c)" by force
  define m where "m = fold (\<lambda>(k, c). offer k c) cs []"
  have ih: "map fst m = rev (remdups (rev (map fst cs)))" unfolding m_def by (rule snoc.IH)
  have "set (map fst m) = set (map fst cs)" by (simp only: ih set_rev set_remdups)
  then have mem: "k \<in> fst ` set m \<longleftrightarrow> k \<in> fst ` set cs" by simp
  have "map fst (fold (\<lambda>(k, c). offer k c) (cs @ [x]) []) = map fst (offer k c m)"
    by (simp add: x m_def)
  also have "\<dots> = (if k \<in> fst ` set cs then map fst m else map fst m @ [k])"
    by (simp only: keys_offer mem)
  also have "\<dots> = rev (remdups (rev (map fst (cs @ [x]))))"
    by (simp add: ih x)
  finally show ?case .
qed

lemma upsertSet_present:
  "distinct (map fst m) \<Longrightarrow> map_of m k = Some e \<Longrightarrow>
     upsertSet fst (k, c) m = map (\<lambda>(k', v). if k' = k then (k', c) else (k', v)) m"
proof (induction m)
  case Nil
  then show ?case by simp
next
  case (Cons x m)
  obtain k' v where x: "x = (k', v)" by force
  show ?case
  proof (cases "k' = k")
    case True
    then have "k \<notin> fst ` set m" using Cons.prems(1) x by auto
    then have "map (\<lambda>(k', v). if k' = k then (k', c) else (k', v)) m = m"
      by (induction m) auto
    with True x show ?thesis by simp
  next
    case False
    with Cons x show ?thesis by simp
  qed
qed

lemma upsertSet_absent: "k \<notin> fst ` set m \<Longrightarrow> upsertSet fst (k, c) m = m @ [(k, c)]"
  by (induction m) auto

lemma offer_explicit:
  assumes "distinct (map fst bestMap)"
  shows "offer key candidate bestMap =
     (case map_of bestMap key of
        None \<Rightarrow> bestMap @ [(key, candidate)]
      | Some existing \<Rightarrow>
          if replaces existing candidate
          then map (\<lambda>(k, row). if k = key then (k, candidate) else (k, row)) bestMap
          else bestMap)"
proof (cases "map_of bestMap key")
  case None
  then have "key \<notin> fst ` set bestMap" by (simp add: map_of_eq_None_iff)
  with None show ?thesis by (simp add: offer_def upsertSet_absent)
next
  case (Some e)
  with assms show ?thesis by (simp add: offer_def upsertSet_present)
qed

subsection \<open>The key of a candidate\<close>

lemma candidateOf_key:
  assumes "candidateOf rt sport market ev bookmakerKey oc = Some (key, candidate)"
  shows "key = (case ev_id ev of Some e \<Rightarrow> e | None \<Rightarrow> ''undefined'') @ ''|'' @ cs_player candidate
                 @ ''|'' @ cs_side candidate @ ''|''
                 @ (case o_point oc of Some l \<Rightarrow> numberToString rt l | None \<Rightarrow> ''null'')"
    and "cs_eventId candidate = ev_id ev"
    and "cs_bestBookmaker candidate = bookmakerKey"
    and "cs_bestPrice candidate
           = (case o_price oc of Some p \<Rightarrow> if isFinite p then Some p else None | None \<Rightarrow> None)"
    and "cs_line candidate
           = (case o_point oc of Some l \<Rightarrow> if isFinite l then Some l else None | None \<Rightarrow> None)"
    and "cs_side candidate
           = (if startsWith (toLowerCase market) ''player_''
              then trim (case o_name oc of Some n \<Rightarrow> n | None \<Rightarrow> []) else market)"
    and "cs_player candidate \<noteq> []" and "cs_side candidate \<noteq> []"
  using assms
  by (auto simp: candidateOf_def Let_def cheatKey_def finiteOrNull_def split: if_splits)

lemma split_at_bar:
  assumes "CHR ''|'' \<notin> set a" and "CHR ''|'' \<notin> set a'" and "a @ CHR ''|'' # r = a' @ CHR ''|'' # r'"
  shows "a = a' \<and> r = r'"
  using assms
proof (induction a arbitrary: a')
  case Nil
  then show ?case by (cases a') auto
next
  case (Cons x a)
  then show ?case by (cases a') auto
qed

lemma cheatKey_parts:
  assumes "cheatKey rt e1 p1 s1 l1 = cheatKey rt e2 p2 s2 l2"
    and "CHR ''|'' \<notin> set (case e1 of Some e \<Rightarrow> e | None \<Rightarrow> ''undefined'')"
    and "CHR ''|'' \<notin> set (case e2 of Some e \<Rightarrow> e | None \<Rightarrow> ''undefined'')"
    and "CHR ''|'' \<notin> set p1" and "CHR ''|'' \<notin> set p2"
    and "CHR ''|'' \<notin> set s1" and "CHR ''|'' \<notin> set s2"
  shows "(case e1 of Some e \<Rightarrow> e | None \<Rightarrow> ''undefined'') = (case e2 of Some e \<Rightarrow> e | None \<Rightarrow> ''undefined'')
         \<and> p1 = p2 \<and> s1 = s2
         \<and> (case l1 of Some l \<Rightarrow> numberToString rt l | None \<Rightarrow> ''null'')
             = (case l2 of Some l \<Rightarrow> numberToString rt l | None \<Rightarrow> ''null'')"
proof -
  define t1 where "t1 = (case e1 of Some e \<Rightarrow> e | None \<Rightarrow> ''undefined'')"
  define t2 where "t2 = (case e2 of Some e \<Rightarrow> e | None \<Rightarrow> ''undefined'')"
  define n1 where "n1 = (case l1 of Some l \<Rightarrow> numberToString rt l | None \<Rightarrow> ''null'')"
  define n2 where "n2 = (case l2 of Some l \<Rightarrow> numberToString rt l | None \<Rightarrow> ''null'')"
  have k: "t1 @ CHR ''|'' # (p1 @ CHR ''|'' # (s1 @ CHR ''|'' # n1))
         = t2 @ CHR ''|'' # (p2 @ CHR ''|'' # (s2 @ CHR ''|'' # n2))"
    using assms(1) by (simp add: cheatKey_def t1_def t2_def n1_def n2_def)
  have a: "t1 = t2 \<and> p1 @ CHR ''|'' # (s1 @ CHR ''|'' # n1) = p2 @ CHR ''|'' # (s2 @ CHR ''|'' # n2)"
    using assms(2,3) k unfolding t1_def [symmetric] t2_def [symmetric] by (intro split_at_bar)
  then have b: "p1 = p2 \<and> s1 @ CHR ''|'' # n1 = s2 @ CHR ''|'' # n2"
    using assms(4,5) by (intro split_at_bar) simp_all
  then have c: "s1 = s2 \<and> n1 = n2"
    using assms(6,7) by (intro split_at_bar) simp_all
  from a b c show ?thesis unfolding t1_def t2_def n1_def n2_def by simp
qed

lemma distinct_first_occurrences: "distinct (rev (remdups (rev xs)))"
  by simp

text \<open>
  Claim C6. The map has one row for each key, in the order in which the keys were first
  offered, and the key of a candidate is the text of the event id, the player (or team),
  the side and the line, joined by bars; where event id, player and side contain no bar,
  two keys are equal only if these parts and the text of the line are. A candidate takes
  the place of the row its key already has, at the same position, exactly when its price
  is strictly higher or when it has a price and the row has none; otherwise, so also
  with equal prices, the row stays; a candidate with a new key is added at the end. So
  the row the map retains for a key is one of the candidates offered for that key, every
  candidate offered before it ranks strictly lower, and no candidate offered after it
  ranks higher: it is the first candidate with the best price.
\<close>

theorem cheat_sheet_best_price:
  "(distinct (map fst bestMap) \<longrightarrow>
      offer key candidate bestMap =
        (case map_of bestMap key of
           None \<Rightarrow> bestMap @ [(key, candidate)]
         | Some existing \<Rightarrow>
             if replaces existing candidate
             then map (\<lambda>(k, row). if k = key then (k, candidate) else (k, row)) bestMap
             else bestMap))
   \<and> (finitePrice existing \<and> finitePrice candidate \<longrightarrow>
        (replaces existing candidate \<longleftrightarrow>
           (\<exists>p. cs_bestPrice candidate = Some (Fin p)
              \<and> (cs_bestPrice existing = None
                   \<or> (\<exists>q. cs_bestPrice existing = Some (Fin q) \<and> q < p)))))
   \<and> (candidateOf rt sport market ev bookmakerKey oc = Some (key, candidate) \<longrightarrow>
        key = (case ev_id ev of Some e \<Rightarrow> e | None \<Rightarrow> ''undefined'') @ ''|'' @ cs_player candidate
                @ ''|'' @ cs_side candidate @ ''|''
                @ (case o_point oc of Some l \<Rightarrow> numberToString rt l | None \<Rightarrow> ''null'')
        \<and> cs_eventId candidate = ev_id ev
        \<and> cs_bestBookmaker candidate = bookmakerKey
        \<and> cs_bestPrice candidate
             = (case o_price oc of Some p \<Rightarrow> if isFinite p then Some p else None | None \<Rightarrow> None)
        \<and> cs_side candidate
             = (if startsWith (toLowerCase market) ''player_''
                then trim (case o_name oc of Some n \<Rightarrow> n | None \<Rightarrow> []) else market)
        \<and> finitePrice candidate)
   \<and> (cheatKey rt e1 p1 s1 l1 = cheatKey rt e2 p2 s2 l2
        \<and> CHR ''|'' \<notin> set (case e1 of Some e \<Rightarrow> e | None \<Rightarrow> ''undefined'')
        \<and> CHR ''|'' \<notin> set (case e2 of Some e \<Rightarrow> e | None \<Rightarrow> ''undefined'')
        \<and> CHR ''|'' \<notin> set p1 \<and> CHR ''|'' \<notin> set p2 \<and> CHR ''|'' \<notin> set s1 \<and> CHR ''|'' \<notin> set s2 \<longrightarrow>
        (case e1 of Some e \<Rightarrow> e | None \<Rightarrow> ''undefined'') = (case e2 of Some e \<Rightarrow> e | None \<Rightarrow> ''undefined'')
        \<and> p1 = p2 \<and> s1 = s2
        \<and> (case l1 of Some l \<Rightarrow> numberToString rt l | None \<Rightarrow> ''null'')
            = (case l2 of Some l \<Rightarrow> numberToString rt l | None \<Rightarrow> ''null''))
   \<and> map fst (buildBestMap rt sport market events)
       = rev (remdups (rev (map fst (allCandidates rt sport market events))))
   \<and> distinct (map fst (buildBestMap rt sport market events))
   \<and> (map_of (buildBestMap rt sport market events) key = Some row \<longrightarrow>
        (\<exists>pre post. allCandidates rt sport market events = pre @ (key, row) # post
           \<and> (\<forall>(k, c) \<in> set pre. k = key \<longrightarrow> priceRank c < priceRank row)
           \<and> (\<forall>(k, c) \<in> set post. k = key \<longrightarrow> priceRank c \<le> priceRank row)))
   \<and> (map_of (buildBestMap rt sport market events) key = None \<longrightarrow>
        key \<notin> fst ` set (allCandidates rt sport market events))"
proof -
  have fin: "\<forall>(k, c) \<in> set (allCandidates rt sport market events). finitePrice c"
    using allCandidates_finitePrice by blast
  have inv: "case map_of (buildBestMap rt sport market events) key of
           None \<Rightarrow> key \<notin> fst ` set (allCandidates rt sport market events)
         | Some row \<Rightarrow>
             \<exists>pre post. allCandidates rt sport market events = pre @ (key, row) # post
               \<and> (\<forall>(k, c) \<in> set pre. k = key \<longrightarrow> priceRank c < priceRank row)
               \<and> (\<forall>(k, c) \<in> set post. k = key \<longrightarrow> priceRank c \<le> priceRank row)"
    unfolding buildBestMap_offers using fin by (rule offers_keep_best)
  have a: "distinct (map fst bestMap) \<longrightarrow>
      offer key candidate bestMap =
        (case map_of bestMap key of
           None \<Rightarrow> bestMap @ [(key, candidate)]
         | Some existing \<Rightarrow>
             if replaces existing candidate
             then map (\<lambda>(k, row). if k = key then (k, candidate) else (k, row)) bestMap
             else bestMap)"
    using offer_explicit by blast
  have b: "finitePrice existing \<and> finitePrice candidate \<longrightarrow>
        (replaces existing candidate \<longleftrightarrow>
           (\<exists>p. cs_bestPrice candidate = Some (Fin p)
              \<and> (cs_bestPrice existing = None
                   \<or> (\<exists>q. cs_bestPrice existing = Some (Fin q) \<and> q < p))))"
    using replaces_explicit by blast
  have c: "candidateOf rt sport market ev bookmakerKey oc = Some (key, candidate) \<longrightarrow>
        key = (case ev_id ev of Some e \<Rightarrow> e | None \<Rightarrow> ''undefined'') @ ''|'' @ cs_player candidate
                @ ''|'' @ cs_side candidate @ ''|''
                @ (case o_point oc of Some l \<Rightarrow> numberToString rt l | None \<Rightarrow> ''null'')
        \<and> cs_eventId candidate = ev_id ev
        \<and> cs_bestBookmaker candidate = bookmakerKey
        \<and> cs_bestPrice candidate
             = (case o_price oc of Some p \<Rightarrow> if isFinite p then Some p else None | None \<Rightarrow> None)
        \<and> cs_side candidate
             = (if startsWith (toLowerCase market) ''player_''
                then trim (case o_name oc of Some n \<Rightarrow> n | None \<Rightarrow> []) else market)
        \<and> finitePrice candidate"
  proof
    assume h: "candidateOf rt sport market ev bookmakerKey oc = Some (key, candidate)"
    note k = candidateOf_key [OF h]
    from k(1,2,3,4,6) candidateOf_finitePrice [OF h]
    show "key = (case ev_id ev of Some e \<Rightarrow> e | None \<Rightarrow> ''undefined'') @ ''|'' @ cs_player candidate
                @ ''|'' @ cs_side candidate @ ''|''
                @ (case o_point oc of Some l \<Rightarrow> numberToString rt l | None \<Rightarrow> ''null'')
        \<and> cs_eventId candidate = ev_id ev
        \<and> cs_bestBookmaker candidate = bookmakerKey
        \<and> cs_bestPrice candidate
             = (case o_price oc of Some p \<Rightarrow> if isFinite p then Some p else None | None \<Rightarrow> None)
        \<and> cs_side candidate
             = (if startsWith (toLowerCase market) ''player_''
                then trim (case o_name oc of Some n \<Rightarrow> n | None \<Rightarrow> []) else market)
        \<and> finitePrice candidate"
      by (intro conjI)
  qed
  have d: "cheatKey rt e1 p1 s1 l1 = cheatKey rt e2 p2 s2 l2
        \<and> CHR ''|'' \<notin> set (case e1 of Some e \<Rightarrow> e | None \<Rightarrow> ''undefined'')
        \<and> CHR ''|'' \<notin> set (case e2 of Some e \<Rightarrow> e | None \<Rightarrow> ''undefined'')
        \<and> CHR ''|'' \<notin> set p1 \<and> CHR ''|'' \<notin> set p2 \<and> CHR ''|'' \<notin> set s1 \<and> CHR ''|'' \<notin> set s2 \<longrightarrow>
        (case e1 of Some e \<Rightarrow> e | None \<Rightarrow> ''undefined'') = (case e2 of Some e \<Rightarrow> e | None \<Rightarrow> ''undefined'')
        \<and> p1 = p2 \<and> s1 = s2
        \<and> (case l1 of Some l \<Rightarrow> numberToString rt l | None \<Rightarrow> ''null'')
            = (case l2 of Some l \<Rightarrow> numberToString rt l | None \<Rightarrow> ''null'')"
  proof
    assume h: "cheatKey rt e1 p1 s1 l1 = cheatKey rt e2 p2 s2 l2
        \<and> CHR ''|'' \<notin> set (case e1 of Some e \<Rightarrow> e | None \<Rightarrow> ''undefined'')
        \<and> CHR ''|'' \<notin> set (case e2 of Some e \<Rightarrow> e | None \<Rightarrow> ''undefined'')
        \<and> CHR ''|'' \<notin> set p1 \<and> CHR ''|'' \<notin> set p2 \<and> CHR ''|'' \<notin> set s1 \<and> CHR ''|'' \<notin> set s2"
    show "(case e1 of Some e \<Rightarrow> e | None \<Rightarrow> ''undefined'') = (case e2 of Some e \<Rightarrow> e | None \<Rightarrow> ''undefined'')
        \<and> p1 = p2 \<and> s1 = s2
        \<and> (case l1 of Some l \<Rightarrow> numberToString rt l | None \<Rightarrow> ''null'')
            = (case l2 of Some l \<Rightarrow> numberToString rt l | None \<Rightarrow> ''null'')"
      by (rule cheatKey_parts) (use h in simp_all)
  qed
  have e: "map fst (buildBestMap rt sport market events)
       = rev (remdups (rev (map fst (allCandidates rt sport market events))))"
    unfolding buildBestMap_offers by (rule keys_fold_offer)
  have f: "distinct (map fst (buildBestMap rt sport market events))"
    unfolding e by (rule distinct_first_occurrences)
  have g: "map_of (buildBestMap rt sport market events) key = Some row \<longrightarrow>
        (\<exists>pre post. allCandidates rt sport market events = pre @ (key, row) # post
           \<and> (\<forall>(k, c) \<in> set pre. k = key \<longrightarrow> priceRank c < priceRank row)
           \<and> (\<forall>(k, c) \<in> set post. k = key \<longrightarrow> priceRank c \<le> priceRank row))"
  proof
    assume h: "map_of (buildBestMap rt sport market events) key = Some row"
    from inv show "\<exists>pre post. allCandidates rt sport market events = pre @ (key, row) # post
           \<and> (\<forall>(k, c) \<in> set pre. k = key \<longrightarrow> priceRank c < priceRank row)
           \<and> (\<forall>(k, c) \<in> set post. k = key \<longrightarrow> priceRank c \<le> priceRank row)"
      by (simp only: h option.case)
  qed
  have i: "map_of (buildBestMap rt sport market events) key = None \<longrightarrow>
        key \<notin> fst ` set (allCandidates rt sport market events)"
    using inv by (cases "map_of (buildBestMap rt sport market events) key") simp_all
  show ?thesis by (intro conjI a b c d e f g i)
qed

lemma sample_rounding:
  "roundDouble (20 / 41) = Fin (1098438933504999 / 2251799813685248)"
  "roundDouble (11 / 21) = Fin (4718056752483377 / 9007199254740992)"
  using roundDouble_eqI [of "20 / 41" "- 54" 8787511468039992] roundDouble_eqI [of "11 / 21" "- 53" 4718056752483377]
  by (simp_all add: pow2_numeral pow2_neg_numeral)

lemma sample_implied:
  "americanToImpliedProb_cs (Fin 105) = Fin (1098438933504999 / 2251799813685248)"
  "americanToImpliedProb_cs (Fin (- 110)) = Fin (4718056752483377 / 9007199254740992)"
  using roundDouble_of_int [of 205] roundDouble_of_int [of 210]
  by (simp_all add: americanToImpliedProb_cs_def sample_rounding)

lemma sample_candidate:
  "candidateOf sampleRuntime ''nba'' ''h2h'' (sampleEvent bms) (Some book) (sampleOutcome ''Lakers'' price)
     = Some (''e1|Lakers|h2h|null'',
             (cheatRow book price)\<lparr>cs_impliedProbability :=
                 finiteOrNull (Some (americanToImpliedProb_cs (Fin price)))\<rparr>)"
  by (simp add: candidateOf_def sampleOutcome_def sampleEvent_def cheatRow_def Let_def trim_def
      isSpaceChar_def orStr_def orOpt_def startsWith_def toLowerCase_def toLowerChar_def
      cheatKey_def finiteOrNull_def)

lemma sample_candidates:
  "candidateOf sampleRuntime ''nba'' ''h2h'' (sampleEvent bms) (Some book) (sampleOutcome ''Lakers'' 105)
     = Some (''e1|Lakers|h2h|null'', cheatRow book 105)"
  "candidateOf sampleRuntime ''nba'' ''h2h'' (sampleEvent bms) (Some book) (sampleOutcome ''Lakers'' (- 110))
     = Some (''e1|Lakers|h2h|null'', cheatRow book (- 110))"
  by (simp_all add: sample_candidate sample_implied finiteOrNull_def cheatRow_def)

lemma sample_bookmakers: "ev_bookmakers (sampleEvent bms) = bms"
  by (simp add: sampleEvent_def)

lemma sample_price: "cs_bestPrice (cheatRow book price) = Some (Fin price)"
  by (simp add: cheatRow_def)

lemma sample_bestMap:
  "buildBestMap sampleRuntime ''nba'' ''h2h'' cheatFeed = [(''e1|Lakers|h2h|null'', cheatRow ''fd'' 105)]"
  by (simp add: buildBestMap_def cheatFeed_def cheatOfEvent_def cheatOfBookmaker_def
      sampleBookmaker_def cheatStep_def sample_candidates offer_def replaces_def sample_price
      sample_bookmakers)

lemma sample_allCandidates:
  "allCandidates sampleRuntime ''nba'' ''h2h'' cheatFeed
     = [(''e1|Lakers|h2h|null'', cheatRow ''dk'' (- 110)), (''e1|Lakers|h2h|null'', cheatRow ''fd'' 105)]"
  by (simp add: allCandidates_def cheatFeed_def bookmakerCandidates_def sampleBookmaker_def
      sample_candidates sample_bookmakers List.map_filter_def)

theorem cheat_sheet_best_price_witness:
  "distinct (map fst [(''e1|Lakers|h2h|null'', cheatRow ''dk'' (- 110))])
   \<and> offer ''e1|Lakers|h2h|null'' (cheatRow ''fd'' 105) [(''e1|Lakers|h2h|null'', cheatRow ''dk'' (- 110))]
       = [(''e1|Lakers|h2h|null'', cheatRow ''fd'' 105)]
   \<and> offer ''e1|Celtics|h2h|null'' (cheatRow ''fd'' 105) [(''e1|Lakers|h2h|null'', cheatRow ''dk'' (- 110))]
       = [(''e1|Lakers|h2h|null'', cheatRow ''dk'' (- 110)), (''e1|Celtics|h2h|null'', cheatRow ''fd'' 105)]
   \<and> finitePrice (cheatRow ''dk'' (- 110)) \<and> finitePrice (cheatRow ''fd'' 105)
   \<and> replaces (cheatRow ''dk'' (- 110)) (cheatRow ''fd'' 105)
   \<and> candidateOf sampleRuntime ''nba'' ''h2h'' (sampleEvent []) (Some ''fd'') (sampleOutcome ''Lakers'' 105)
       = Some (''e1|Lakers|h2h|null'', cheatRow ''fd'' 105)
   \<and> ''e1|Lakers|h2h|null'' = ''e1'' @ ''|'' @ cs_player (cheatRow ''fd'' 105) @ ''|''
         @ cs_side (cheatRow ''fd'' 105) @ ''|'' @ ''null''
   \<and> cs_bestPrice (cheatRow ''fd'' 105) = Some (Fin 105)
   \<and> cheatKey sampleRuntime (Some ''e1'') ''Lakers'' ''h2h'' None
       = cheatKey sampleRuntime (Some ''e1'') ''Lakers'' ''h2h'' None
   \<and> CHR ''|'' \<notin> set ''e1'' \<and> CHR ''|'' \<notin> set ''Lakers'' \<and> CHR ''|'' \<notin> set ''h2h''
   \<and> allCandidates sampleRuntime ''nba'' ''h2h'' cheatFeed
       = [(''e1|Lakers|h2h|null'', cheatRow ''dk'' (- 110)), (''e1|Lakers|h2h|null'', cheatRow ''fd'' 105)]
   \<and> map fst (buildBestMap sampleRuntime ''nba'' ''h2h'' cheatFeed) = [''e1|Lakers|h2h|null'']
   \<and> distinct (map fst (buildBestMap sampleRuntime ''nba'' ''h2h'' cheatFeed))
   \<and> map_of (buildBestMap sampleRuntime ''nba'' ''h2h'' cheatFeed) ''e1|Lakers|h2h|null''
       = Some (cheatRow ''fd'' 105)
   \<and> (\<exists>pre post. allCandidates sampleRuntime ''nba'' ''h2h'' cheatFeed
          = pre @ (''e1|Lakers|h2h|null'', cheatRow ''fd'' 105) # post)
   \<and> map_of (buildBestMap sampleRuntime ''nba'' ''h2h'' cheatFeed) ''e1|Celtics|h2h|null'' = None
   \<and> ''e1|Celtics|h2h|null'' \<notin> fst ` set (allCandidates sampleRuntime ''nba'' ''h2h'' cheatFeed)"
proof -
  let ?K = "''e1|Lakers|h2h|null''"
  let ?dk = "cheatRow ''dk'' (- 110)"
  let ?fd = "cheatRow ''fd'' 105"
  have d: "distinct (map fst [(?K, ?dk)])" by simp
  have h2: "finitePrice ?dk" "finitePrice ?fd"
    by (simp_all add: finitePrice_def cheatRow_def)
  have p: "cs_bestPrice ?fd = Some (Fin 105)" "cs_bestPrice ?dk = Some (Fin (- 110))"
    by (simp_all add: cheatRow_def)
  have m: "map_of [(?K, ?dk)] ?K = Some ?dk" "map_of [(?K, ?dk)] ''e1|Celtics|h2h|null'' = None"
    by simp_all
  note t = cheat_sheet_best_price [where bestMap = "[(?K, ?dk)]" and key = ?K and candidate = ?fd
      and existing = ?dk and rt = sampleRuntime and sport = "''nba''" and market = "''h2h''"
      and events = cheatFeed and row = ?fd and ev = "sampleEvent []" and bookmakerKey = "Some ''fd''"
      and oc = "sampleOutcome ''Lakers'' 105" and ?e1.0 = "Some ''e1''" and ?e2.0 = "Some ''e1''"
      and ?p1.0 = "''Lakers''" and ?p2.0 = "''Lakers''" and ?s1.0 = "''h2h''" and ?s2.0 = "''h2h''"
      and ?l1.0 = None and ?l2.0 = None]
  have r: "replaces ?dk ?fd"
    using t [THEN conjunct2, THEN conjunct1] h2 p by simp
  have o1: "offer ?K ?fd [(?K, ?dk)] = [(?K, ?fd)]"
    using t [THEN conjunct1] d r by (simp only: m option.case) simp
  have o2: "offer ''e1|Celtics|h2h|null'' ?fd [(?K, ?dk)] = [(?K, ?dk), (''e1|Celtics|h2h|null'', ?fd)]"
    using cheat_sheet_best_price [where bestMap = "[(?K, ?dk)]" and key = "''e1|Celtics|h2h|null''"
        and candidate = ?fd, THEN conjunct1] d
    by (simp only: m option.case) simp
  have c: "candidateOf sampleRuntime ''nba'' ''h2h'' (sampleEvent []) (Some ''fd'') (sampleOutcome ''Lakers'' 105)
       = Some (?K, ?fd)"
    by (rule sample_candidates)
  have k: "?K = ''e1'' @ ''|'' @ cs_player ?fd @ ''|'' @ cs_side ?fd @ ''|'' @ ''null''"
    using t [THEN conjunct2, THEN conjunct2, THEN conjunct1, rule_format, OF c, THEN conjunct1]
    by (simp add: sampleEvent_def sampleOutcome_def)
  have s: "cheatKey sampleRuntime (Some ''e1'') ''Lakers'' ''h2h'' None
       = cheatKey sampleRuntime (Some ''e1'') ''Lakers'' ''h2h'' None"
    "CHR ''|'' \<notin> set ''e1''" "CHR ''|'' \<notin> set ''Lakers''" "CHR ''|'' \<notin> set ''h2h''"
    by simp_all
  have ac: "allCandidates sampleRuntime ''nba'' ''h2h'' cheatFeed = [(?K, ?dk), (?K, ?fd)]"
    by (rule sample_allCandidates)
  have ks: "map fst (buildBestMap sampleRuntime ''nba'' ''h2h'' cheatFeed) = [?K]"
    using t [THEN conjunct2, THEN conjunct2, THEN conjunct2, THEN conjunct2, THEN conjunct1]
    by (simp add: ac)
  have ds: "distinct (map fst (buildBestMap sampleRuntime ''nba'' ''h2h'' cheatFeed))"
    by (rule t [THEN conjunct2, THEN conjunct2, THEN conjunct2, THEN conjunct2, THEN conjunct2,
          THEN conjunct1])
  have h3: "map_of (buildBestMap sampleRuntime ''nba'' ''h2h'' cheatFeed) ?K = Some ?fd"
    by (simp add: sample_bestMap)
  have ex: "\<exists>pre post. allCandidates sampleRuntime ''nba'' ''h2h'' cheatFeed = pre @ (?K, ?fd) # post"
    using t [THEN conjunct2, THEN conjunct2, THEN conjunct2, THEN conjunct2, THEN conjunct2,
          THEN conjunct2, THEN conjunct1, rule_format, OF h3]
    by blast
  have h4: "map_of (buildBestMap sampleRuntime ''nba'' ''h2h'' cheatFeed) ''e1|Celtics|h2h|null'' = None"
    by (simp add: sample_bestMap)
  have absent: "''e1|Celtics|h2h|null'' \<notin> fst ` set (allCandidates sampleRuntime ''nba'' ''h2h'' cheatFeed)"
    by (rule cheat_sheet_best_price [where rt = sampleRuntime and sport = "''nba''" and market = "''h2h''"
        and events = cheatFeed and key = "''e1|Celtics|h2h|null''", THEN conjunct2, THEN conjunct2,
        THEN conjunct2, THEN conjunct2, THEN conjunct2, THEN conjunct2, THEN conjunct2, rule_format,
        OF h4])
  show ?thesis by (intro conjI d o1 o2 h2 r c k p(1) s ac ks ds h3 ex h4 absent)
qed

text \<open>The order of the two quotes does not matter, and of two equal quotes the first stays.\<close>

lemma sample_bestMap_other_order:
  "buildBestMap sampleRuntime ''nba'' ''h2h''
     [sampleEvent [sampleBookmaker ''fd'' [sampleOutcome ''Lakers'' 105],
                   sampleBookmaker ''dk'' [sampleOutcome ''Lakers'' (- 110)]]]
     = [(''e1|Lakers|h2h|null'', cheatRow ''fd'' 105)]"
  by (simp add: buildBestMap_def cheatOfEvent_def cheatOfBookmaker_def
      sampleBookmaker_def cheatStep_def sample_candidates offer_def replaces_def sample_price
      sample_bookmakers)

lemma sample_bestMap_tie:
  "buildBestMap sampleRuntime ''nba'' ''h2h''
     [sampleEvent [sampleBookmaker ''dk'' [sampleOutcome ''Lakers'' 105],
                   sampleBookmaker ''fd'' [sampleOutcome ''Lakers'' 105]]]
     = [(''e1|Lakers|h2h|null'', cheatRow ''dk'' 105)]"
  by (simp add: buildBestMap_def cheatOfEvent_def cheatOfBookmaker_def
      sampleBookmaker_def cheatStep_def sample_candidates offer_def replaces_def sample_price
      sample_bookmakers)

section \<open>Arbitrage: best prices\<close>

lemma distinct_upsertSet:
  "distinct (map idf xs) \<Longrightarrow> distinct (map idf (upsertSet idf r xs))"
proof (induction xs)
  case Nil
  then show ?case by simp
next
  case (Cons x xs)
  then show ?case using ids_upsertSet [of idf r xs] by (auto simp: image_iff)
qed

lemma set_upsertSet: "set (upsertSet idf r xs) \<subseteq> insert r (set xs)"
  by (induction xs) auto

lemma bestInv_bestStep: "bestInv best \<Longrightarrow> bestInv (bestStep bk oc best)"
proof -
  assume inv: "bestInv best"
  have up: "bestInv (upsertSet fst (n, \<lparr>be_bookmaker = bk, be_price = p\<rparr>) best)" if "isFinite p" for n p
  proof -
    have "distinct (map fst (upsertSet fst (n, \<lparr>be_bookmaker = bk, be_price = p\<rparr>) best))"
      using inv by (simp add: bestInv_def distinct_upsertSet)
    moreover have "\<forall>(n', e) \<in> set (upsertSet fst (n, \<lparr>be_bookmaker = bk, be_price = p\<rparr>) best). isFinite (be_price e)"
      using inv that set_upsertSet [of fst "(n, \<lparr>be_bookmaker = bk, be_price = p\<rparr>)" best]
      by (auto simp: bestInv_def)
    ultimately show ?thesis by (simp add: bestInv_def)
  qed
  show ?thesis
    using inv up by (auto simp: bestStep_def Let_def split: option.splits)
qed

lemma bestInv_fold_bestStep: "bestInv best \<Longrightarrow> bestInv (fold (bestStep bk) ocs best)"
  by (induction ocs arbitrary: best) (simp_all add: bestInv_bestStep)

lemma bestInv_bestOfBookmaker: "bestInv best \<Longrightarrow> bestInv (bestOfBookmaker market bm best)"
  by (simp add: bestOfBookmaker_def bestInv_fold_bestStep split: option.splits)

lemma bestInv_bestPrices: "bestInv (bestPrices market ev)"
proof -
  have "bestInv best \<Longrightarrow> bestInv (fold (bestOfBookmaker market) bms best)" for bms best
    by (induction bms arbitrary: best) (simp_all add: bestInv_bestOfBookmaker)
  moreover have "bestInv []" by (simp add: bestInv_def)
  ultimately show ?thesis unfolding bestPrices_def by blast
qed

section \<open>Arbitrage: property names in order\<close>

lemma mset_objectKeys: "mset (objectKeys obj) = mset (map fst obj)"
  by (simp add: objectKeys_def Let_def)

lemma length_objectKeys: "length (objectKeys obj) = length obj"
  using mset_objectKeys [of obj] by (metis length_map size_mset)

lemma two_keys:
  assumes "mset ks = mset [a, b]"
  shows "ks = [a, b] \<or> ks = [b, a]"
proof -
  have l: "length ks = length [a, b]" using assms by (rule mset_eq_length)
  then obtain x y where ks: "ks = [x, y]"
    by (cases ks; cases "tl ks") auto
  with assms have "{#x, y#} = {#a, b#}" by simp
  then show ?thesis using ks by (auto simp: add_eq_conv_ex)
qed

lemma no_proto_bestStep: "''__proto__'' \<notin> fst ` set best \<Longrightarrow> ''__proto__'' \<notin> fst ` set (bestStep bk oc best)"
proof -
  assume a: "''__proto__'' \<notin> fst ` set best"
  have "''__proto__'' \<notin> fst ` set (upsertSet fst (n, e) best)" if "n \<noteq> ''__proto__''" for n e
    using a that ids_upsertSet [of fst "(n, e)" best] by simp
  then show ?thesis
    using a by (auto simp del: upsertSet.simps simp: bestStep_def Let_def split: option.splits)
qed

lemma no_proto_bestPrices: "''__proto__'' \<notin> fst ` set (bestPrices market ev)"
proof -
  have s: "''__proto__'' \<notin> fst ` set best \<Longrightarrow> ''__proto__'' \<notin> fst ` set (fold (bestStep bk) ocs best)"
    for bk ocs best
    by (induction ocs arbitrary: best) (simp_all add: no_proto_bestStep)
  have b: "''__proto__'' \<notin> fst ` set best \<Longrightarrow> ''__proto__'' \<notin> fst ` set (bestOfBookmaker market bm best)"
    for bm best
    by (simp add: bestOfBookmaker_def s split: option.splits)
  have "''__proto__'' \<notin> fst ` set best \<Longrightarrow> ''__proto__'' \<notin> fst ` set (fold (bestOfBookmaker market) bms best)"
    for bms best
    by (induction bms arbitrary: best) (simp_all add: b)
  then show ?thesis unfolding bestPrices_def by simp
qed

section \<open>Arbitrage: the two legs\<close>

lemma jsAdd_representable: "jsAdd a b = Fin d \<Longrightarrow> representable d"
  by (cases a; cases b) (simp_all add: roundDouble_result)

lemma representable_0: "representable 0"
  using representable_of_int [of 0] by simp

lemma representable_1: "representable 1"
  using representable_of_int [of 1] by simp

lemma representable_pos_ge: "representable x \<Longrightarrow> 0 < x \<Longrightarrow> pow2 (- 1074) \<le> x"
  using representable_diff [OF representable_0, of x] by simp

lemma representable_bound: "representable x \<Longrightarrow> \<bar>x\<bar> < pow2 1024"
  by (simp add: representable_def)

lemma reciprocal_positive:
  assumes "representable d" and "0 < d"
  shows "jsDiv (Fin 1) (Fin d) = PInf \<or> (\<exists>i. jsDiv (Fin 1) (Fin d) = Fin i \<and> 0 < i \<and> representable i)"
proof -
  have "d < pow2 1024" using representable_bound [OF assms(1)] assms(2) by simp
  then have "1 / pow2 1024 < 1 / d" using assms(2) by (simp add: frac_less2)
  then have "pow2 (- 1024) < 1 / d" by (simp add: pow2_minus)
  moreover have "pow2 (- 1074) \<le> pow2 (- 1024)" by (rule pow2_mono) simp
  ultimately have "pow2 (- 1074) \<le> 1 / d" by linarith
  from roundDouble_positive [OF this] show ?thesis
    using assms(2) by (auto dest: roundDouble_result)
qed

lemma impliedOf_some:
  assumes "impliedOf p = Some v"
  shows "\<exists>i. v = Fin i \<and> 0 < i \<and> representable i"
proof -
  define dec where "dec = (if p = 0 then Fin 0
            else if 0 < p then jsAdd (Fin 1) (jsDiv (Fin p) (Fin 100))
            else jsAdd (Fin 1) (jsDiv (Fin 100) (Fin \<bar>p\<bar>)))"
  from assms obtain d where d: "dec = Fin d" "0 < d"
    and v: "(case jsDiv (Fin 1) (Fin d) of Fin i \<Rightarrow> Some (Fin i) | _ \<Rightarrow> None) = Some v"
    unfolding impliedOf_def dec_def [symmetric] by (auto split: jsnum.splits if_splits)
  have "representable d"
  proof (cases "p = 0")
    case True
    with d show ?thesis by (simp add: dec_def)
  next
    case False
    with d(1) show ?thesis by (auto simp: dec_def dest: jsAdd_representable split: if_splits)
  qed
  from reciprocal_positive [OF this d(2)] v show ?thesis by auto
qed

lemma impliedOr0_cases:
  "(impliedOf p = None \<and> impliedOr0 p = Fin 0)
   \<or> (\<exists>i. impliedOf p = Some (Fin i) \<and> impliedOr0 p = Fin i \<and> 0 < i \<and> representable i)"
proof (cases "impliedOf p")
  case None
  then show ?thesis by (simp add: impliedOr0_def)
next
  case (Some v)
  with impliedOf_some [OF Some] show ?thesis by (auto simp: impliedOr0_def)
qed

lemma impliedOf_zero: "impliedOf 0 = None"
  by (simp add: impliedOf_def)

lemma leg_implied:
  assumes "map_of best n = Some e" and "be_price e = Fin p"
  shows "leg_impliedProbability (makeLeg best n) = impliedOf p"
    and "leg_bestPrice (makeLeg best n) = Some (Fin p)"
    and "leg_bestBookmaker (makeLeg best n) = be_bookmaker e"
    and "leg_outcome (makeLeg best n) = n"
  using assms
  by (auto simp: makeLeg_def Let_def americanToDecimal_fp_def impliedOf_def split: jsnum.splits)

lemma leg_contribution:
  assumes "map_of best n = Some e" and "be_price e = Fin p"
  shows "(case leg_impliedProbability (makeLeg best n) of Some v \<Rightarrow> v | None \<Rightarrow> Fin 0) = impliedOr0 p"
  by (simp add: leg_implied(1) [OF assms] impliedOr0_def)

lemma impliedOr0_from_zero: "jsAdd (Fin 0) (impliedOr0 p) = impliedOr0 p"
  using impliedOr0_cases [of p] by (auto simp: roundDouble_0 roundDouble_representable)

lemma impliedSum_two:
  assumes "map_of best a = Some ea" "be_price ea = Fin pa"
    and "map_of best b = Some eb" "be_price eb = Fin pb"
  shows "impliedSumOf (map (makeLeg best) [a, b]) = jsAdd (impliedOr0 pa) (impliedOr0 pb)"
  by (simp add: impliedSumOf_def leg_contribution [OF assms(1,2)] leg_contribution [OF assms(3,4)]
      impliedOr0_from_zero)

lemma impliedOr0_value:
  obtains x where "impliedOr0 p = Fin x" "representable x" "0 \<le> x" "x = 0 \<longleftrightarrow> impliedOf p = None"
  using impliedOr0_cases [of p] representable_0 by (metis less_irrefl less_le option.distinct(1) order_refl)

lemma impliedSum_zero:
  "jsAdd (impliedOr0 p1) (impliedOr0 p2) = Fin 0 \<longleftrightarrow> impliedOf p1 = None \<and> impliedOf p2 = None"
proof -
  obtain x where x: "impliedOr0 p1 = Fin x" "representable x" "0 \<le> x" "x = 0 \<longleftrightarrow> impliedOf p1 = None"
    by (rule impliedOr0_value)
  obtain y where y: "impliedOr0 p2 = Fin y" "representable y" "0 \<le> y" "y = 0 \<longleftrightarrow> impliedOf p2 = None"
    by (rule impliedOr0_value)
  have s: "jsAdd (impliedOr0 p1) (impliedOr0 p2) = roundDouble (x + y)" by (simp add: x(1) y(1))
  show ?thesis
  proof (cases "x = 0 \<and> y = 0")
    case True
    with x(4) y(4) s show ?thesis by (simp add: roundDouble_0)
  next
    case False
    have "pow2 (- 1074) \<le> x + y"
    proof (cases "0 < x")
      case True
      from representable_pos_ge [OF x(2) True] y(3) show ?thesis by linarith
    next
      case nx: False
      with False x(3) y(3) have "0 < y" by linarith
      from representable_pos_ge [OF y(2) this] x(3) show ?thesis by linarith
    qed
    from roundDouble_positive [OF this] have "roundDouble (x + y) \<noteq> Fin 0" by auto
    with False x(4) y(4) s show ?thesis by auto
  qed
qed

lemma arbitrageOf_two:
  assumes best: "bestPrices market ev = [(n1, e1), (n2, e2)]"
  obtains p1 p2 where "be_price e1 = Fin p1" "be_price e2 = Fin p2" "n1 \<noteq> n2"
    "impliedSumOf (map (makeLeg (bestPrices market ev)) (objectKeys (bestPrices market ev)))
       = jsAdd (impliedOr0 p1) (impliedOr0 p2)"
    "mset (map leg_impliedProbability (map (makeLeg (bestPrices market ev)) (objectKeys (bestPrices market ev))))
       = {#impliedOf p1, impliedOf p2#}"
proof -
  have inv: "bestInv [(n1, e1), (n2, e2)]" using bestInv_bestPrices [of market ev] best by simp
  then have ne: "n1 \<noteq> n2" and f: "isFinite (be_price e1)" "isFinite (be_price e2)"
    by (simp_all add: bestInv_def)
  from f obtain p1 p2 where p: "be_price e1 = Fin p1" "be_price e2 = Fin p2"
    by (auto simp: isFinite_iff)
  have m: "map_of [(n1, e1), (n2, e2)] n1 = Some e1" "map_of [(n1, e1), (n2, e2)] n2 = Some e2"
    using ne by simp_all
  have "mset (objectKeys [(n1, e1), (n2, e2)]) = mset [n1, n2]" by (simp add: mset_objectKeys)
  then have "objectKeys [(n1, e1), (n2, e2)] = [n1, n2] \<or> objectKeys [(n1, e1), (n2, e2)] = [n2, n1]"
    by (rule two_keys)
  then have "impliedSumOf (map (makeLeg [(n1, e1), (n2, e2)]) (objectKeys [(n1, e1), (n2, e2)]))
       = jsAdd (impliedOr0 p1) (impliedOr0 p2)
     \<and> mset (map leg_impliedProbability (map (makeLeg [(n1, e1), (n2, e2)]) (objectKeys [(n1, e1), (n2, e2)])))
       = {#impliedOf p1, impliedOf p2#}"
  proof
    assume k: "objectKeys [(n1, e1), (n2, e2)] = [n1, n2]"
    show ?thesis unfolding k
      using impliedSum_two [OF m(1) p(1) m(2) p(2)] leg_implied(1) [OF m(1) p(1)] leg_implied(1) [OF m(2) p(2)]
      by simp
  next
    assume k: "objectKeys [(n1, e1), (n2, e2)] = [n2, n1]"
    show ?thesis unfolding k
      using impliedSum_two [OF m(2) p(2) m(1) p(1)] leg_implied(1) [OF m(1) p(1)] leg_implied(1) [OF m(2) p(2)]
      by (simp add: jsAdd_commute)
  qed
  with that [OF p ne] best show ?thesis by simp
qed

section \<open>Sorting and truncating\<close>

lemma mset_insertCmp: "mset (insertCmp cmp x ys) = add_mset x (mset ys)"
  by (induction ys) simp_all

lemma mset_jsSort: "mset (jsSort cmp xs) = mset xs"
  by (induction xs) (simp_all add: jsSort_def mset_insertCmp)

lemma set_insertCmp: "set (insertCmp cmp x ys) = insert x (set ys)"
  by (induction ys) auto

lemma sorted_insertCmp:
  assumes cmp: "\<And>a b. a \<in> A \<Longrightarrow> b \<in> A \<Longrightarrow> jsPositive (cmp a b) \<longleftrightarrow> lt a b"
    and asym: "\<And>a b. lt a b \<Longrightarrow> \<not> lt b a"
    and negtrans: "\<And>a b c. a \<in> A \<Longrightarrow> b \<in> A \<Longrightarrow> c \<in> A \<Longrightarrow> \<not> lt a b \<Longrightarrow> \<not> lt b c \<Longrightarrow> \<not> lt a c"
    and "x \<in> A" and "set ys \<subseteq> A" and "sorted_wrt (\<lambda>a b. \<not> lt a b) ys"
  shows "sorted_wrt (\<lambda>a b. \<not> lt a b) (insertCmp cmp x ys)"
  using assms(5,6)
proof (induction ys)
  case Nil
  then show ?case by simp
next
  case (Cons y ys)
  have y: "y \<in> A" using Cons.prems(1) by simp
  show ?case
  proof (cases "jsPositive (cmp x y)")
    case True
    then have "lt x y" using cmp [OF assms(4) y] by simp
    then have "\<not> lt y x" by (rule asym)
    then show ?thesis using True Cons by (auto simp: set_insertCmp)
  next
    case False
    then have xy: "\<not> lt x y" using cmp [OF assms(4) y] by simp
    have "\<not> lt x z" if "z \<in> set ys" for z
    proof -
      have "z \<in> A" using that Cons.prems(1) by auto
      moreover have "\<not> lt y z" using that Cons.prems(2) by simp
      ultimately show ?thesis using negtrans [OF assms(4) y _ xy] by blast
    qed
    then show ?thesis using False xy Cons.prems(2) by auto
  qed
qed

lemma sorted_jsSort:
  assumes cmp: "\<And>a b. a \<in> A \<Longrightarrow> b \<in> A \<Longrightarrow> jsPositive (cmp a b) \<longleftrightarrow> lt a b"
    and asym: "\<And>a b. lt a b \<Longrightarrow> \<not> lt b a"
    and negtrans: "\<And>a b c. a \<in> A \<Longrightarrow> b \<in> A \<Longrightarrow> c \<in> A \<Longrightarrow> \<not> lt a b \<Longrightarrow> \<not> lt b c \<Longrightarrow> \<not> lt a c"
    and "set xs \<subseteq> A"
  shows "sorted_wrt (\<lambda>a b. \<not> lt a b) (jsSort cmp xs)"
  using assms(4)
proof (induction xs)
  case Nil
  then show ?case by (simp add: jsSort_def)
next
  case (Cons x xs)
  have s: "set (jsSort cmp xs) \<subseteq> A"
    using Cons.prems mset_jsSort [of cmp xs] by (metis set_mset_mset set_subset_Cons subset_trans)
  have x: "x \<in> A" using Cons.prems by simp
  have ih: "sorted_wrt (\<lambda>a b. \<not> lt a b) (jsSort cmp xs)" using Cons by simp
  have "sorted_wrt (\<lambda>a b. \<not> lt a b) (insertCmp cmp x (jsSort cmp xs))"
    by (rule sorted_insertCmp [where A = A and lt = lt, OF cmp asym negtrans x s ih])
  then show ?case by (simp add: jsSort_def)
qed

lemma slice_arbitrageLimit:
  "topN \<noteq> Some NaN \<Longrightarrow> sliceTo (arbitrageLimit topN) xs = take (clampedLimit topN) xs"
proof (cases topN)
  case None
  then show ?thesis
    by (simp add: arbitrageLimit_def clampedLimit_def mathMin_def mathMax_def sliceTo_def truncRat_def)
next
  case (Some t)
  assume "topN \<noteq> Some NaN"
  with Some have nn: "t \<noteq> NaN" by simp
  show ?thesis
  proof (cases t)
    case (Fin r)
    have lim: "arbitrageLimit topN = Fin (max 1 (min 200 r))"
      using Some Fin by (simp add: arbitrageLimit_def mathMin_def mathMax_def max_def min_def)
    have "max 1 (min 200 r) \<ge> 1" by simp
    then have "truncRat (max 1 (min 200 r)) = \<lfloor>max 1 (min 200 r)\<rfloor>" "\<lfloor>max 1 (min 200 r)\<rfloor> \<ge> 0"
      by (simp_all add: truncRat_def)
    then show ?thesis using Some Fin lim by (simp add: sliceTo_def clampedLimit_def Let_def)
  next
    case PInf
    then show ?thesis using Some
      by (simp add: arbitrageLimit_def clampedLimit_def mathMin_def mathMax_def sliceTo_def truncRat_def)
  next
    case NInf
    then show ?thesis using Some
      by (simp add: arbitrageLimit_def clampedLimit_def mathMin_def mathMax_def sliceTo_def truncRat_def)
  next
    case NaN
    with nn show ?thesis by simp
  qed
qed

lemma clampedLimit_range: "1 \<le> clampedLimit topN \<and> clampedLimit topN \<le> 200"
proof (cases topN)
  case None
  then show ?thesis by (simp add: clampedLimit_def)
next
  case (Some t)
  show ?thesis
  proof (cases t)
    case (Fin r)
    define q where "q = \<lfloor>max 1 (min 200 r)\<rfloor>"
    have a: "1 \<le> q" unfolding q_def by (simp add: le_floor_iff)
    have "max 1 (min 200 r) \<le> 200" by simp
    then have b: "q \<le> 200" unfolding q_def by (simp add: floor_le_iff)
    from a b have "1 \<le> nat q \<and> nat q \<le> 200" by linarith
    then show ?thesis using Some Fin by (simp add: clampedLimit_def flip: q_def)
  qed (simp_all add: Some clampedLimit_def)
qed


lemma clampedLimit_default: "clampedLimit None = 50"
  by (simp add: clampedLimit_def)

section \<open>Arbitrage: which events give an opportunity\<close>

lemma clampedLimit_number:
  "clampedLimit (Some (Fin r)) = (if r < 1 then 1 else if 200 < r then 200 else nat \<lfloor>r\<rfloor>)"
  by (simp add: clampedLimit_def max_def min_def)

lemma arbitrageOf_not_two:
  "length (bestPrices market ev) \<noteq> 2 \<Longrightarrow> arbitrageOf sport market ev = None"
  by (simp add: arbitrageOf_def Let_def length_objectKeys)

lemma arbitrageOf_sum:
  assumes "length (bestPrices market ev) = 2"
    and "impliedSumOf (map (makeLeg (bestPrices market ev)) (objectKeys (bestPrices market ev))) = sm"
  shows "arbitrageOf sport market ev =
     (if jsLess (Fin 0) sm \<and> jsLess sm (Fin 1) then
        Some \<lparr>ao_eventId = ev_id ev, ao_commenceTime = ev_commence_time ev,
              ao_homeTeam = ev_home_team ev, ao_awayTeam = ev_away_team ev,
              ao_sportKey = sport, ao_market = market,
              ao_impliedSum = sm,
              ao_edgePercent = jsMul (jsSub (jsDiv (Fin 1) sm) (Fin 1)) (Fin 100),
              ao_legs = map (makeLeg (bestPrices market ev)) (objectKeys (bestPrices market ev))\<rparr>
      else None)"
  using assms by (cases sm) (auto simp: arbitrageOf_def Let_def length_objectKeys)

lemma jsDouble_jsSub: "jsDouble a \<Longrightarrow> jsDouble (jsSub a (Fin b))"
  by (cases a) (simp_all add: roundDouble_jsDouble)

lemma jsDouble_jsMul: "jsDouble a \<Longrightarrow> 0 < b \<Longrightarrow> jsDouble (jsMul a (Fin b))"
  by (cases a) (simp_all add: roundDouble_jsDouble)

lemma jsDouble_jsDiv: "b \<noteq> 0 \<Longrightarrow> jsDouble (jsDiv (Fin a) (Fin b))"
  by (simp add: roundDouble_jsDouble)

lemma jsDouble_not_NaN: "jsDouble a \<Longrightarrow> a \<noteq> NaN"
  by (cases a) simp_all

lemma arbitrageOf_edge_number:
  "arbitrageOf sport market ev = Some opp \<Longrightarrow> jsDouble (ao_edgePercent opp)"
  by (auto simp: arbitrageOf_def Let_def split: if_splits jsnum.splits
      intro!: jsDouble_jsMul jsDouble_jsSub roundDouble_jsDouble)

lemma getArbitrage_sorted:
  assumes m: "a_market params = ''h2h''"
    and g: "getOdds rt env \<lparr>p_sport = a_sport params,
               p_regions = Some (case a_regions params of Some r \<Rightarrow> r | None \<Rightarrow> [''us'']),
               p_markets = Some [''h2h''],
               p_oddsFormat = Some (case a_oddsFormat params of Some f \<Rightarrow> f | None \<Rightarrow> ''american'')\<rparr>
             = (Inr oddsRes, es)"
    and w: "\<not> truthyStr (warning oddsRes)"
    and t: "a_top params \<noteq> Some NaN"
  shows "\<exists>sorted.
     getArbitrage rt env params =
       (Inr \<lparr>data = take (clampedLimit (a_top params)) sorted, remaining = remaining oddsRes,
             warning = None\<rparr>, es)
     \<and> mset sorted = mset (List.map_filter (arbitrageOf (a_sport params) ''h2h'') (data oddsRes))
     \<and> sorted_wrt (\<lambda>a b. \<not> jsLess (ao_edgePercent a) (ao_edgePercent b)) sorted
     \<and> (\<forall>a \<in> set sorted. ao_edgePercent a \<noteq> NaN)"
proof -
  define out where "out = List.map_filter (arbitrageOf (a_sport params) ''h2h'') (data oddsRes)"
  define sorted where "sorted = jsSort (\<lambda>a b. jsSub (ao_edgePercent b) (ao_edgePercent a)) out"
  let ?A = "{a :: ArbitrageOpportunity. jsDouble (ao_edgePercent a)}"
  have fin: "set out \<subseteq> ?A"
    unfolding out_def by (auto simp: List.map_filter_def dest: arbitrageOf_edge_number)
  have run: "getArbitrage rt env params =
       (Inr \<lparr>data = take (clampedLimit (a_top params)) sorted, remaining = remaining oddsRes,
             warning = None\<rparr>, es)"
    using m g w by (simp add: getArbitrage_def Let_def slice_arbitrageLimit [OF t] sorted_def out_def)
  have perm: "mset sorted = mset out" unfolding sorted_def by (rule mset_jsSort)
  have cmp: "jsPositive (jsSub (ao_edgePercent b) (ao_edgePercent a))
               \<longleftrightarrow> jsLess (ao_edgePercent a) (ao_edgePercent b)"
    if "a \<in> ?A" "b \<in> ?A" for a b :: ArbitrageOpportunity
    using that by (simp add: jsSub_positive)
  have asym: "jsLess (ao_edgePercent a) (ao_edgePercent b) \<Longrightarrow> \<not> jsLess (ao_edgePercent b) (ao_edgePercent a)"
    for a b :: ArbitrageOpportunity
    by (rule jsLess_asym)
  have negtrans: "\<not> jsLess (ao_edgePercent a) (ao_edgePercent c)"
    if "a \<in> ?A" "b \<in> ?A" "c \<in> ?A" "\<not> jsLess (ao_edgePercent a) (ao_edgePercent b)"
      "\<not> jsLess (ao_edgePercent b) (ao_edgePercent c)" for a b c :: ArbitrageOpportunity
    using that by (intro jsLess_negtrans [of "ao_edgePercent a" "ao_edgePercent b" "ao_edgePercent c"])
      (simp_all add: jsDouble_not_NaN)
  have "sorted_wrt (\<lambda>a b. \<not> jsLess (ao_edgePercent a) (ao_edgePercent b)) sorted"
    unfolding sorted_def
    by (rule sorted_jsSort [where A = ?A and lt = "\<lambda>a b. jsLess (ao_edgePercent a) (ao_edgePercent b)",
          OF cmp asym negtrans fin])
  moreover have "\<forall>a \<in> set sorted. ao_edgePercent a \<noteq> NaN"
  proof
    fix a
    assume "a \<in> set sorted"
    then have "a \<in> set out" using perm by (metis set_mset_mset)
    with fin show "ao_edgePercent a \<noteq> NaN" by (auto simp: jsDouble_not_NaN)
  qed
  ultimately show ?thesis using run perm unfolding out_def by blast
qed

text \<open>
  Claim C4, as the code has it. An event whose best prices do not give exactly two outcome
  names gives no opportunity (the name \<open>__proto__\<close> never counts). For an event with
  exactly two names, with best prices \<open>p1\<close> and \<open>p2\<close>, the legs carry the two implied
  probabilities and their sum \<open>s\<close> on doubles, a leg without implied probability counting
  as 0; an opportunity is emitted if and only if \<open>0 < s < 1\<close>, and it carries \<open>s\<close> and the
  edge percent \<open>(1 / s - 1) * 100\<close>, computed on doubles. The sum is 0 exactly when
  neither leg has an implied probability, which is the case of the price 0; an implied
  probability is positive. For a limit that is not NaN, the result is the list of emitted
  opportunities, sorted by descending edge percent (no opportunity is followed by one
  with a greater edge, and no edge is NaN) and cut to the first \<open>n\<close> rows, where \<open>n\<close> is the
  limit (50 by default) clamped to the interval from 1 to 200: 1 for a limit below 1, 200
  for a limit above 200, and the whole part of the limit otherwise.
\<close>

theorem getArbitrage_opportunities:
  "(length (bestPrices market ev) \<noteq> 2 \<longrightarrow> arbitrageOf sport market ev = None)
   \<and> ''__proto__'' \<notin> fst ` set (bestPrices market ev)
   \<and> (bestPrices market ev = [(n1, e1), (n2, e2)] \<longrightarrow>
        (\<exists>p1 p2. be_price e1 = Fin p1 \<and> be_price e2 = Fin p2 \<and> n1 \<noteq> n2
           \<and> (arbitrageOf sport market ev \<noteq> None
                \<longleftrightarrow> jsLess (Fin 0) (jsAdd (impliedOr0 p1) (impliedOr0 p2)) \<and> jsLess (jsAdd (impliedOr0 p1) (impliedOr0 p2)) (Fin 1))
           \<and> (\<forall>opp. arbitrageOf sport market ev = Some opp \<longrightarrow>
                 ao_impliedSum opp = jsAdd (impliedOr0 p1) (impliedOr0 p2)
                 \<and> ao_edgePercent opp = jsMul (jsSub (jsDiv (Fin 1) (jsAdd (impliedOr0 p1) (impliedOr0 p2))) (Fin 1)) (Fin 100)
                 \<and> ao_eventId opp = ev_id ev
                 \<and> map leg_outcome (ao_legs opp) = objectKeys (bestPrices market ev)
                 \<and> mset (map leg_impliedProbability (ao_legs opp)) = {#impliedOf p1, impliedOf p2#})
           \<and> (jsAdd (impliedOr0 p1) (impliedOr0 p2) = Fin 0 \<longleftrightarrow> impliedOf p1 = None \<and> impliedOf p2 = None)))
   \<and> impliedOf 0 = None
   \<and> (impliedOf p = Some v \<longrightarrow> (\<exists>i. v = Fin i \<and> 0 < i))
   \<and> (a_market params = ''h2h''
        \<and> getOdds rt env \<lparr>p_sport = a_sport params,
               p_regions = Some (case a_regions params of Some r \<Rightarrow> r | None \<Rightarrow> [''us'']),
               p_markets = Some [''h2h''],
               p_oddsFormat = Some (case a_oddsFormat params of Some f \<Rightarrow> f | None \<Rightarrow> ''american'')\<rparr>
             = (Inr oddsRes, es)
        \<and> \<not> truthyStr (warning oddsRes) \<and> a_top params \<noteq> Some NaN \<longrightarrow>
        (\<exists>sorted.
           getArbitrage rt env params =
             (Inr \<lparr>data = take (clampedLimit (a_top params)) sorted, remaining = remaining oddsRes,
                   warning = None\<rparr>, es)
           \<and> mset sorted = mset (List.map_filter (arbitrageOf (a_sport params) ''h2h'') (data oddsRes))
           \<and> sorted_wrt (\<lambda>a b. \<not> jsLess (ao_edgePercent a) (ao_edgePercent b)) sorted
           \<and> (\<forall>a \<in> set sorted. ao_edgePercent a \<noteq> NaN)
           \<and> 1 \<le> clampedLimit (a_top params) \<and> clampedLimit (a_top params) \<le> 200
           \<and> clampedLimit None = 50
           \<and> clampedLimit (Some (Fin r)) = (if r < 1 then 1 else if 200 < r then 200 else nat \<lfloor>r\<rfloor>)))"
proof (intro conjI impI)
  assume "length (bestPrices market ev) \<noteq> 2"
  then show "arbitrageOf sport market ev = None" by (rule arbitrageOf_not_two)
next
  show "''__proto__'' \<notin> fst ` set (bestPrices market ev)" by (rule no_proto_bestPrices)
next
  assume best: "bestPrices market ev = [(n1, e1), (n2, e2)]"
  then have len: "length (bestPrices market ev) = 2" by simp
  from best obtain p1 p2 where p: "be_price e1 = Fin p1" "be_price e2 = Fin p2" "n1 \<noteq> n2"
    and sm: "impliedSumOf (map (makeLeg (bestPrices market ev)) (objectKeys (bestPrices market ev)))
       = jsAdd (impliedOr0 p1) (impliedOr0 p2)"
    and ms: "mset (map leg_impliedProbability
                (map (makeLeg (bestPrices market ev)) (objectKeys (bestPrices market ev))))
       = {#impliedOf p1, impliedOf p2#}"
    by (rule arbitrageOf_two)
  note v = arbitrageOf_sum [OF len sm, of sport]
  have zero: "jsAdd (impliedOr0 p1) (impliedOr0 p2) = Fin 0 \<longleftrightarrow> impliedOf p1 = None \<and> impliedOf p2 = None"
    by (rule impliedSum_zero)
  have names: "map leg_outcome (map (makeLeg (bestPrices market ev)) ks) = ks" for ks
    by (induction ks) (simp_all add: makeLeg_def Let_def)
  have iff: "arbitrageOf sport market ev \<noteq> None
                \<longleftrightarrow> jsLess (Fin 0) (jsAdd (impliedOr0 p1) (impliedOr0 p2)) \<and> jsLess (jsAdd (impliedOr0 p1) (impliedOr0 p2)) (Fin 1)"
    by (simp add: v)
  have opp: "\<forall>opp. arbitrageOf sport market ev = Some opp \<longrightarrow>
                 ao_impliedSum opp = jsAdd (impliedOr0 p1) (impliedOr0 p2)
                 \<and> ao_edgePercent opp = jsMul (jsSub (jsDiv (Fin 1) (jsAdd (impliedOr0 p1) (impliedOr0 p2))) (Fin 1)) (Fin 100)
                 \<and> ao_eventId opp = ev_id ev
                 \<and> map leg_outcome (ao_legs opp) = objectKeys (bestPrices market ev)
                 \<and> mset (map leg_impliedProbability (ao_legs opp)) = {#impliedOf p1, impliedOf p2#}"
  proof (intro allI impI)
    fix opp
    assume h: "arbitrageOf sport market ev = Some opp"
    with v have o: "ao_impliedSum opp = jsAdd (impliedOr0 p1) (impliedOr0 p2)"
      "ao_edgePercent opp = jsMul (jsSub (jsDiv (Fin 1) (jsAdd (impliedOr0 p1) (impliedOr0 p2))) (Fin 1)) (Fin 100)"
      "ao_eventId opp = ev_id ev"
      "ao_legs opp = map (makeLeg (bestPrices market ev)) (objectKeys (bestPrices market ev))"
      by (auto split: if_splits)
    have n: "map leg_outcome (ao_legs opp) = objectKeys (bestPrices market ev)"
      by (simp only: o(4) names)
    have l: "mset (map leg_impliedProbability (ao_legs opp)) = {#impliedOf p1, impliedOf p2#}"
      by (simp only: o(4) ms)
    show "ao_impliedSum opp = jsAdd (impliedOr0 p1) (impliedOr0 p2)
                 \<and> ao_edgePercent opp = jsMul (jsSub (jsDiv (Fin 1) (jsAdd (impliedOr0 p1) (impliedOr0 p2))) (Fin 1)) (Fin 100)
                 \<and> ao_eventId opp = ev_id ev
                 \<and> map leg_outcome (ao_legs opp) = objectKeys (bestPrices market ev)
                 \<and> mset (map leg_impliedProbability (ao_legs opp)) = {#impliedOf p1, impliedOf p2#}"
      by (intro conjI o(1,2,3) n l)
  qed
  show "\<exists>p1 p2. be_price e1 = Fin p1 \<and> be_price e2 = Fin p2 \<and> n1 \<noteq> n2
           \<and> (arbitrageOf sport market ev \<noteq> None
                \<longleftrightarrow> jsLess (Fin 0) (jsAdd (impliedOr0 p1) (impliedOr0 p2)) \<and> jsLess (jsAdd (impliedOr0 p1) (impliedOr0 p2)) (Fin 1))
           \<and> (\<forall>opp. arbitrageOf sport market ev = Some opp \<longrightarrow>
                 ao_impliedSum opp = jsAdd (impliedOr0 p1) (impliedOr0 p2)
                 \<and> ao_edgePercent opp = jsMul (jsSub (jsDiv (Fin 1) (jsAdd (impliedOr0 p1) (impliedOr0 p2))) (Fin 1)) (Fin 100)
                 \<and> ao_eventId opp = ev_id ev
                 \<and> map leg_outcome (ao_legs opp) = objectKeys (bestPrices market ev)
                 \<and> mset (map leg_impliedProbability (ao_legs opp)) = {#impliedOf p1, impliedOf p2#})
           \<and> (jsAdd (impliedOr0 p1) (impliedOr0 p2) = Fin 0 \<longleftrightarrow> impliedOf p1 = None \<and> impliedOf p2 = None)"
    by (intro exI [of _ p1] exI [of _ p2] conjI p iff opp zero)
next
  show "impliedOf 0 = None" by (rule impliedOf_zero)
next
  assume "impliedOf p = Some v"
  from impliedOf_some [OF this] show "\<exists>i. v = Fin i \<and> 0 < i" by blast
next
  assume a: "a_market params = ''h2h''
        \<and> getOdds rt env \<lparr>p_sport = a_sport params,
               p_regions = Some (case a_regions params of Some r \<Rightarrow> r | None \<Rightarrow> [''us'']),
               p_markets = Some [''h2h''],
               p_oddsFormat = Some (case a_oddsFormat params of Some f \<Rightarrow> f | None \<Rightarrow> ''american'')\<rparr>
             = (Inr oddsRes, es)
        \<and> \<not> truthyStr (warning oddsRes) \<and> a_top params \<noteq> Some NaN"
  then have "\<exists>sorted.
     getArbitrage rt env params =
       (Inr \<lparr>data = take (clampedLimit (a_top params)) sorted, remaining = remaining oddsRes,
             warning = None\<rparr>, es)
     \<and> mset sorted = mset (List.map_filter (arbitrageOf (a_sport params) ''h2h'') (data oddsRes))
     \<and> sorted_wrt (\<lambda>a b. \<not> jsLess (ao_edgePercent a) (ao_edgePercent b)) sorted
     \<and> (\<forall>a \<in> set sorted. ao_edgePercent a \<noteq> NaN)"
    by (intro getArbitrage_sorted) simp_all
  then show "\<exists>sorted.
           getArbitrage rt env params =
             (Inr \<lparr>data = take (clampedLimit (a_top params)) sorted, remaining = remaining oddsRes,
                   warning = None\<rparr>, es)
           \<and> mset sorted = mset (List.map_filter (arbitrageOf (a_sport params) ''h2h'') (data oddsRes))
           \<and> sorted_wrt (\<lambda>a b. \<not> jsLess (ao_edgePercent a) (ao_edgePercent b)) sorted
           \<and> (\<forall>a \<in> set sorted. ao_edgePercent a \<noteq> NaN)
           \<and> 1 \<le> clampedLimit (a_top params) \<and> clampedLimit (a_top params) \<le> 200
           \<and> clampedLimit None = 50
           \<and> clampedLimit (Some (Fin r)) = (if r < 1 then 1 else if 200 < r then 200 else nat \<lfloor>r\<rfloor>)"
    using clampedLimit_range [of "a_top params"] clampedLimit_default clampedLimit_number [of r] by blast
qed

section \<open>Arbitrage: the sample quotes\<close>

text \<open>The roundings of the two sample quotes, +150 against -120 and +107 against -107.\<close>

lemma rounding_1: "roundDouble (3 / 2) = Fin (3 / 2)"
  using roundDouble_eqI [of "(3 / 2)" "- 52" 6755399441055744]
  by (simp add: pow2_numeral pow2_neg_numeral)

lemma rounding_2: "roundDouble (5 / 2) = Fin (5 / 2)"
  using roundDouble_eqI [of "(5 / 2)" "- 51" 5629499534213120]
  by (simp add: pow2_numeral pow2_neg_numeral)

lemma rounding_3: "roundDouble (2 / 5) = Fin (3602879701896397 / 9007199254740992)"
  using roundDouble_eqI [of "(2 / 5)" "- 54" 7205759403792794]
  by (simp add: pow2_numeral pow2_neg_numeral)

lemma rounding_4: "roundDouble (5 / 6) = Fin (7505999378950827 / 9007199254740992)"
  using roundDouble_eqI [of "(5 / 6)" "- 53" 7505999378950827]
  by (simp add: pow2_numeral pow2_neg_numeral)

lemma rounding_5: "roundDouble (16513198633691819 / 9007199254740992) = Fin (4128299658422955 / 2251799813685248)"
  using roundDouble_tieI [of "(16513198633691819 / 9007199254740992)" "- 52" 8256599316845909 8256599316845910]
  by (simp add: pow2_numeral pow2_neg_numeral)

lemma rounding_6: "roundDouble (2251799813685248 / 4128299658422955) = Fin (1228254443828317 / 2251799813685248)"
  using roundDouble_eqI [of "(2251799813685248 / 4128299658422955)" "- 53" 4913017775313268]
  by (simp add: pow2_numeral pow2_neg_numeral)

lemma rounding_7: "roundDouble (8515897477209665 / 9007199254740992) = Fin (8515897477209665 / 9007199254740992)"
  using roundDouble_eqI [of "(8515897477209665 / 9007199254740992)" "- 53" 8515897477209665]
  by (simp add: pow2_numeral pow2_neg_numeral)

lemma rounding_8: "roundDouble (9007199254740992 / 8515897477209665) = Fin (4763422682795717 / 4503599627370496)"
  using roundDouble_eqI [of "(9007199254740992 / 8515897477209665)" "- 52" 4763422682795717]
  by (simp add: pow2_numeral pow2_neg_numeral)

lemma rounding_9: "roundDouble (259823055425221 / 4503599627370496) = Fin (259823055425221 / 4503599627370496)"
  using roundDouble_eqI [of "(259823055425221 / 4503599627370496)" "- 57" 8314337773607072]
  by (simp add: pow2_numeral pow2_neg_numeral)

lemma rounding_10: "roundDouble (6495576385630525 / 1125899906842624) = Fin (6495576385630525 / 1125899906842624)"
  using roundDouble_eqI [of "(6495576385630525 / 1125899906842624)" "- 50" 6495576385630525]
  by (simp add: pow2_numeral pow2_neg_numeral)

lemma rounding_11: "roundDouble (107 / 100) = Fin (4818851601286431 / 4503599627370496)"
  using roundDouble_eqI [of "(107 / 100)" "- 52" 4818851601286431]
  by (simp add: pow2_numeral pow2_neg_numeral)

lemma rounding_12: "roundDouble (9322451228656927 / 4503599627370496) = Fin (291326600895529 / 140737488355328)"
  using roundDouble_tieI [of "(9322451228656927 / 4503599627370496)" "- 51" 4661225614328463 4661225614328464]
  by (simp add: pow2_numeral pow2_neg_numeral)

lemma rounding_13: "roundDouble (140737488355328 / 291326600895529) = Fin (1087825996949395 / 2251799813685248)"
  using roundDouble_eqI [of "(140737488355328 / 291326600895529)" "- 54" 8702607975595160]
  by (simp add: pow2_numeral pow2_neg_numeral)

lemma rounding_14: "roundDouble (100 / 107) = Fin (8417943228729899 / 9007199254740992)"
  using roundDouble_eqI [of "(100 / 107)" "- 53" 8417943228729899]
  by (simp add: pow2_numeral pow2_neg_numeral)

lemma rounding_15: "roundDouble (17425142483470891 / 9007199254740992) = Fin (4356285620867723 / 2251799813685248)"
  using roundDouble_tieI [of "(17425142483470891 / 9007199254740992)" "- 52" 8712571241735445 8712571241735446]
  by (simp add: pow2_numeral pow2_neg_numeral)

lemma rounding_16: "roundDouble (2251799813685248 / 4356285620867723) = Fin (4655895266943411 / 9007199254740992)"
  using roundDouble_eqI [of "(2251799813685248 / 4356285620867723)" "- 53" 4655895266943411]
  by (simp add: pow2_numeral pow2_neg_numeral)

lemma rounding_17: "roundDouble (9007199254740991 / 9007199254740992) = Fin (9007199254740991 / 9007199254740992)"
  using roundDouble_eqI [of "(9007199254740991 / 9007199254740992)" "- 53" 9007199254740991]
  by (simp add: pow2_numeral pow2_neg_numeral)

lemma rounding_18: "roundDouble (9007199254740992 / 9007199254740991) = Fin (4503599627370497 / 4503599627370496)"
  using roundDouble_eqI [of "(9007199254740992 / 9007199254740991)" "- 52" 4503599627370497]
  by (simp add: pow2_numeral pow2_neg_numeral)

lemma rounding_19: "roundDouble (1 / 4503599627370496) = Fin (1 / 4503599627370496)"
  using roundDouble_eqI [of "(1 / 4503599627370496)" "- 104" 4503599627370496]
  by (simp add: pow2_numeral pow2_neg_numeral)

lemma rounding_20: "roundDouble (25 / 1125899906842624) = Fin (25 / 1125899906842624)"
  using roundDouble_eqI [of "(25 / 1125899906842624)" "- 98" 7036874417766400]
  by (simp add: pow2_numeral pow2_neg_numeral)

lemmas sample_roundings = rounding_1 rounding_2 rounding_3 rounding_4 rounding_5 rounding_6 rounding_7 rounding_8 rounding_9 rounding_10 rounding_11 rounding_12 rounding_13 rounding_14 rounding_15 rounding_16 rounding_17 rounding_18 rounding_19 rounding_20

lemma sample_implied_arbitrage:
  "impliedOf 150 = Some (Fin (3602879701896397 / 9007199254740992))"
  "impliedOf (- 120) = Some (Fin (1228254443828317 / 2251799813685248))"
  "impliedOf 107 = Some (Fin (1087825996949395 / 2251799813685248))"
  "impliedOf (- 107) = Some (Fin (4655895266943411 / 9007199254740992))"
  by (simp_all add: impliedOf_def sample_roundings)

lemma sample_sums:
  "jsAdd (impliedOr0 150) (impliedOr0 (- 120)) = Fin (8515897477209665 / 9007199254740992)"
  "jsAdd (impliedOr0 107) (impliedOr0 (- 107)) = Fin (9007199254740991 / 9007199254740992)"
  "jsAdd (impliedOr0 0) (impliedOr0 0) = Fin 0"
  by (simp_all add: impliedOr0_def sample_implied_arbitrage impliedOf_zero sample_roundings roundDouble_0)

lemma sample_edges:
  "jsMul (jsSub (jsDiv (Fin 1) (Fin (8515897477209665 / 9007199254740992))) (Fin 1)) (Fin 100) = Fin (6495576385630525 / 1125899906842624)"
  "jsMul (jsSub (jsDiv (Fin 1) (Fin (9007199254740991 / 9007199254740992))) (Fin 1)) (Fin 100) = Fin (25 / 1125899906842624)"
  by (simp_all add: sample_roundings)

lemma sample_getOdds_h2h:
  "getOdds sampleRuntime (sampleEnv (Some ''key'') evs)
     \<lparr>p_sport = ''nba'', p_regions = Some [''us''], p_markets = Some [''h2h''],
      p_oddsFormat = Some ''american''\<rparr>
   = (Inr \<lparr>data = evs, remaining = Fin 0, warning = None\<rparr>,
      [FeedCall ''getOdds'',
       HttpGet \<lparr>req_url = ''https://api.the-odds-api.com/v4/sports/nba/odds'',
                req_params = [(''apiKey'', ''key''), (''regions'', ''us''),
                              (''markets'', ''h2h''), (''oddsFormat'', ''american'')]\<rparr>])"
proof -
  have up: "upstreamOdds (sampleEnv (Some ''key'') evs) r
              = Inr \<lparr>resp_data = evs, resp_requests_remaining = Some ''0''\<rparr>" for r
    by (simp add: sampleEnv_def)
  have nopp: "\<not> list_ex isPlayerPropMarket [''h2h'']"
    by (simp add: isPlayerPropMarket_def startsWith_def toLowerCase_def toLowerChar_def)
  have b: "baseUrl (sampleEnv (Some ''key'') evs) = ''https://api.the-odds-api.com/v4''"
    by (simp add: baseUrl_def sampleEnv_def orStr_def)
  show ?thesis
    using nopp by (simp add: getOdds_def sample_configured up b Let_def remainingOf_def orStr_def
        sample_parseInt)
qed


lemma sample_trim: "trim ''Lakers'' = ''Lakers''" "trim ''Celtics'' = ''Celtics''"
  "trim ''__proto__'' = ''__proto__''"
  by (simp_all add: trim_def isSpaceChar_def)

lemma sample_bestPrices:
  "bestPrices ''h2h'' (quotedEvent p1 p2)
     = [(''Lakers'', \<lparr>be_bookmaker = Some ''dk'', be_price = Fin p1\<rparr>),
        (''Celtics'', \<lparr>be_bookmaker = Some ''dk'', be_price = Fin p2\<rparr>)]"
  by (simp add: quotedEvent_def bestPrices_def sample_bookmakers bestOfBookmaker_def sampleBookmaker_def
      bestStep_def sampleOutcome_def orStr_def sample_trim Let_def)

lemma sample_bestPrices_none: "bestPrices ''h2h'' (sampleEvent []) = []"
  by (simp add: bestPrices_def sample_bookmakers)

lemma sampleFeed_quoted: "sampleFeed = [quotedEvent 150 (- 120)]"
  by (simp add: sampleFeed_def quotedEvent_def)

theorem getArbitrage_opportunities_witness:
  "length (bestPrices ''h2h'' (sampleEvent [])) \<noteq> 2
   \<and> arbitrageOf ''nba'' ''h2h'' (sampleEvent []) = None
   \<and> bestPrices ''h2h'' (quotedEvent 150 (- 120))
      = [(''Lakers'', \<lparr>be_bookmaker = Some ''dk'', be_price = Fin 150\<rparr>),
         (''Celtics'', \<lparr>be_bookmaker = Some ''dk'', be_price = Fin (- 120)\<rparr>)]
   \<and> impliedOf 150 = Some (Fin (3602879701896397 / 9007199254740992))
   \<and> impliedOf (- 120) = Some (Fin (1228254443828317 / 2251799813685248))
   \<and> jsAdd (impliedOr0 150) (impliedOr0 (- 120)) = Fin (8515897477209665 / 9007199254740992)
   \<and> (\<exists>opp. arbitrageOf ''nba'' ''h2h'' (quotedEvent 150 (- 120)) = Some opp
        \<and> ao_impliedSum opp = Fin (8515897477209665 / 9007199254740992)
        \<and> ao_edgePercent opp = Fin (6495576385630525 / 1125899906842624))
   \<and> bestPrices ''h2h'' (quotedEvent 107 (- 107))
      = [(''Lakers'', \<lparr>be_bookmaker = Some ''dk'', be_price = Fin 107\<rparr>),
         (''Celtics'', \<lparr>be_bookmaker = Some ''dk'', be_price = Fin (- 107)\<rparr>)]
   \<and> jsAdd (impliedOr0 107) (impliedOr0 (- 107)) = Fin (9007199254740991 / 9007199254740992)
   \<and> (\<exists>opp. arbitrageOf ''nba'' ''h2h'' (quotedEvent 107 (- 107)) = Some opp
        \<and> ao_impliedSum opp = Fin (9007199254740991 / 9007199254740992)
        \<and> ao_edgePercent opp = Fin (25 / 1125899906842624))
   \<and> a_market (sampleArbitrage None) = ''h2h''
   \<and> a_top (sampleArbitrage None) \<noteq> Some NaN
   \<and> (\<exists>sorted.
         fst (getArbitrage sampleRuntime (sampleEnv (Some ''key'') sampleFeed) (sampleArbitrage None))
           = Inr \<lparr>data = take 50 sorted, remaining = Fin 0, warning = None\<rparr>
         \<and> mset sorted = mset (List.map_filter (arbitrageOf ''nba'' ''h2h'') sampleFeed))
   \<and> clampedLimit (Some (Fin 10)) = 10
   \<and> clampedLimit (Some (Fin 500)) = 200
   \<and> clampedLimit (Some (Fin 0)) = 1"
proof -
  have w1: "length (bestPrices ''h2h'' (sampleEvent [])) \<noteq> 2" by (simp add: sample_bestPrices_none)
  have c1: "arbitrageOf ''nba'' ''h2h'' (sampleEvent []) = None"
    by (rule getArbitrage_opportunities [where market = "''h2h''" and ev = "sampleEvent []"
          and sport = "''nba''", THEN conjunct1, rule_format, OF w1])
  have emitted: "\<exists>opp. arbitrageOf ''nba'' ''h2h'' (quotedEvent a b) = Some opp
        \<and> ao_impliedSum opp = Fin sm \<and> ao_edgePercent opp = Fin e"
    if sm: "jsAdd (impliedOr0 a) (impliedOr0 b) = Fin sm" and r: "0 < sm" "sm < 1"
      and e: "jsMul (jsSub (jsDiv (Fin 1) (Fin sm)) (Fin 1)) (Fin 100) = Fin e" for a b sm e
  proof -
    obtain p1 p2 where p: "be_price \<lparr>be_bookmaker = Some ''dk'', be_price = Fin a\<rparr> = Fin p1"
      "be_price \<lparr>be_bookmaker = Some ''dk'', be_price = Fin b\<rparr> = Fin p2"
      "arbitrageOf ''nba'' ''h2h'' (quotedEvent a b) \<noteq> None
         \<longleftrightarrow> jsLess (Fin 0) (jsAdd (impliedOr0 p1) (impliedOr0 p2))
             \<and> jsLess (jsAdd (impliedOr0 p1) (impliedOr0 p2)) (Fin 1)"
      "\<forall>opp. arbitrageOf ''nba'' ''h2h'' (quotedEvent a b) = Some opp \<longrightarrow>
         ao_impliedSum opp = jsAdd (impliedOr0 p1) (impliedOr0 p2)
         \<and> ao_edgePercent opp
             = jsMul (jsSub (jsDiv (Fin 1) (jsAdd (impliedOr0 p1) (impliedOr0 p2))) (Fin 1)) (Fin 100)"
      using getArbitrage_opportunities [where market = "''h2h''" and ev = "quotedEvent a b"
          and sport = "''nba''", THEN conjunct2, THEN conjunct2, THEN conjunct1, rule_format,
          OF sample_bestPrices]
      by blast
    from p(1,2) have pv: "p1 = a" "p2 = b" by simp_all
    from p(3) have "arbitrageOf ''nba'' ''h2h'' (quotedEvent a b) \<noteq> None"
      by (simp add: pv sm r)
    then obtain opp where opp: "arbitrageOf ''nba'' ''h2h'' (quotedEvent a b) = Some opp" by blast
    with p(4) have "ao_impliedSum opp = jsAdd (impliedOr0 p1) (impliedOr0 p2)
         \<and> ao_edgePercent opp
             = jsMul (jsSub (jsDiv (Fin 1) (jsAdd (impliedOr0 p1) (impliedOr0 p2))) (Fin 1)) (Fin 100)"
      by blast
    then have "ao_impliedSum opp = Fin sm \<and> ao_edgePercent opp = Fin e"
      by (simp only: pv sm e)
    with opp show ?thesis by blast
  qed
  have c2: "\<exists>opp. arbitrageOf ''nba'' ''h2h'' (quotedEvent 150 (- 120)) = Some opp
        \<and> ao_impliedSum opp = Fin (8515897477209665 / 9007199254740992)
        \<and> ao_edgePercent opp = Fin (6495576385630525 / 1125899906842624)"
    by (rule emitted [OF sample_sums(1) _ _ sample_edges(1)]) simp_all
  have c3: "\<exists>opp. arbitrageOf ''nba'' ''h2h'' (quotedEvent 107 (- 107)) = Some opp
        \<and> ao_impliedSum opp = Fin (9007199254740991 / 9007199254740992)
        \<and> ao_edgePercent opp = Fin (25 / 1125899906842624)"
    by (rule emitted [OF sample_sums(2) _ _ sample_edges(2)]) simp_all
  have w3: "a_market (sampleArbitrage None) = ''h2h''" "a_top (sampleArbitrage None) \<noteq> Some NaN"
    by (simp_all add: sampleArbitrage_def)
  have g: "getOdds sampleRuntime (sampleEnv (Some ''key'') sampleFeed)
      \<lparr>p_sport = a_sport (sampleArbitrage None),
       p_regions = Some (case a_regions (sampleArbitrage None) of Some r \<Rightarrow> r | None \<Rightarrow> [''us'']),
       p_markets = Some [''h2h''],
       p_oddsFormat = Some (case a_oddsFormat (sampleArbitrage None) of Some f \<Rightarrow> f | None \<Rightarrow> ''american'')\<rparr>
     = (Inr \<lparr>data = sampleFeed, remaining = Fin 0, warning = None\<rparr>,
        [FeedCall ''getOdds'',
         HttpGet \<lparr>req_url = ''https://api.the-odds-api.com/v4/sports/nba/odds'',
                req_params = [(''apiKey'', ''key''), (''regions'', ''us''),
                              (''markets'', ''h2h''), (''oddsFormat'', ''american'')]\<rparr>])"
    by (simp add: sampleArbitrage_def sample_getOdds_h2h)
  have nw: "\<not> truthyStr (warning \<lparr>data = sampleFeed, remaining = Fin 0, warning = None\<rparr>)"
    by (simp add: truthyStr_def)
  have c4: "\<exists>sorted.
         fst (getArbitrage sampleRuntime (sampleEnv (Some ''key'') sampleFeed) (sampleArbitrage None))
           = Inr \<lparr>data = take 50 sorted, remaining = Fin 0, warning = None\<rparr>
         \<and> mset sorted = mset (List.map_filter (arbitrageOf ''nba'' ''h2h'') sampleFeed)"
  proof -
    obtain sorted where
      "getArbitrage sampleRuntime (sampleEnv (Some ''key'') sampleFeed) (sampleArbitrage None) =
             (Inr \<lparr>data = take (clampedLimit (a_top (sampleArbitrage None))) sorted,
                   remaining = remaining \<lparr>data = sampleFeed, remaining = Fin 0, warning = None\<rparr>,
                   warning = None\<rparr>,
              [FeedCall ''getOdds'',
               HttpGet \<lparr>req_url = ''https://api.the-odds-api.com/v4/sports/nba/odds'',
                req_params = [(''apiKey'', ''key''), (''regions'', ''us''),
                              (''markets'', ''h2h''), (''oddsFormat'', ''american'')]\<rparr>])"
      "mset sorted = mset (List.map_filter (arbitrageOf (a_sport (sampleArbitrage None)) ''h2h'')
                             (data \<lparr>data = sampleFeed, remaining = Fin 0, warning = None\<rparr>))"
      using getArbitrage_opportunities [where params = "sampleArbitrage None" and rt = sampleRuntime
        and env = "sampleEnv (Some ''key'') sampleFeed", THEN conjunct2, THEN conjunct2, THEN conjunct2,
        THEN conjunct2, THEN conjunct2, rule_format,
        OF conjI [OF w3(1) conjI [OF g conjI [OF nw w3(2)]]]]
      by blast
    then have "fst (getArbitrage sampleRuntime (sampleEnv (Some ''key'') sampleFeed) (sampleArbitrage None))
           = Inr \<lparr>data = take 50 sorted, remaining = Fin 0, warning = None\<rparr>
         \<and> mset sorted = mset (List.map_filter (arbitrageOf ''nba'' ''h2h'') sampleFeed)"
      by (simp add: sampleArbitrage_def clampedLimit_def)
    then show ?thesis by blast
  qed
  have lim: "clampedLimit (Some (Fin r))
      = (if r < 1 then 1 else if 200 < r then 200 else nat \<lfloor>r\<rfloor>)" for r
    using getArbitrage_opportunities [where params = "sampleArbitrage None" and rt = sampleRuntime
        and env = "sampleEnv (Some ''key'') sampleFeed" and r = r, THEN conjunct2, THEN conjunct2,
        THEN conjunct2, THEN conjunct2, THEN conjunct2, rule_format,
        OF conjI [OF w3(1) conjI [OF g conjI [OF nw w3(2)]]]]
    by blast
  have l: "clampedLimit (Some (Fin 10)) = 10" "clampedLimit (Some (Fin 500)) = 200"
    "clampedLimit (Some (Fin 0)) = 1"
    using lim [of 10] lim [of 500] lim [of 0] by simp_all
  show ?thesis
    by (intro conjI w1 c1 sample_bestPrices sample_implied_arbitrage(1,2) sample_sums(1) c2
        sample_sums(2) c3 w3 c4 l)
qed

text \<open>
  The claim as stated fails where the sum is 0. When both best prices are 0, neither leg
  has an implied probability, the sum of the two is 0 and so below 1, yet no opportunity
  is emitted: the code skips an event whose sum is not positive.
\<close>

theorem getArbitrage_zero_prices:
  "bestPrices ''h2h'' zeroEvent
     = [(''Lakers'', \<lparr>be_bookmaker = Some ''dk'', be_price = Fin 0\<rparr>),
         (''Celtics'', \<lparr>be_bookmaker = Some ''dk'', be_price = Fin 0\<rparr>)]
   \<and> map leg_impliedProbability
        (map (makeLeg (bestPrices ''h2h'' zeroEvent)) (objectKeys (bestPrices ''h2h'' zeroEvent)))
      = [None, None]
   \<and> impliedSumOf (map (makeLeg (bestPrices ''h2h'' zeroEvent)) (objectKeys (bestPrices ''h2h'' zeroEvent)))
      = Fin 0
   \<and> jsLess (Fin 0) (Fin 1)
   \<and> arbitrageOf ''nba'' ''h2h'' zeroEvent = None"
proof -
  have b: "bestPrices ''h2h'' zeroEvent
     = [(''Lakers'', \<lparr>be_bookmaker = Some ''dk'', be_price = Fin 0\<rparr>),
         (''Celtics'', \<lparr>be_bookmaker = Some ''dk'', be_price = Fin 0\<rparr>)]"
    using sample_bestPrices [of 0 0] by (simp add: zeroEvent_def quotedEvent_def)
  have k: "objectKeys (bestPrices ''h2h'' zeroEvent) = [''Lakers'', ''Celtics'']"
    by (simp add: b objectKeys_def arrayIndex_def isDigit_def Let_def)
  have l: "map leg_impliedProbability
        (map (makeLeg (bestPrices ''h2h'' zeroEvent)) (objectKeys (bestPrices ''h2h'' zeroEvent)))
      = [None, None]"
    unfolding k by (simp add: b makeLeg_def americanToDecimal_fp_def Let_def)
  have s: "impliedSumOf (map (makeLeg (bestPrices ''h2h'' zeroEvent)) (objectKeys (bestPrices ''h2h'' zeroEvent)))
      = Fin 0"
    unfolding k by (simp add: b impliedSumOf_def makeLeg_def americanToDecimal_fp_def roundDouble_0 Let_def)
  have len: "length (bestPrices ''h2h'' zeroEvent) = 2" by (simp add: b)
  have z: "arbitrageOf ''nba'' ''h2h'' zeroEvent = None"
    using arbitrageOf_sum [OF len s, of "''nba''"] by simp
  have o: "jsLess (Fin 0) (Fin 1)" by simp
  show ?thesis by (intro conjI b l s o z)
qed

text \<open>
  A limit that is NaN passes through \<open>Math.min\<close> and \<open>Math.max\<close>, and \<open>slice(0, NaN)\<close> is
  empty: the result has no rows although an opportunity exists.
\<close>

lemma getArbitrage_nan_limit:
  "List.map_filter (arbitrageOf ''nba'' ''h2h'') sampleFeed \<noteq> []
   \<and> fst (getArbitrage sampleRuntime (sampleEnv (Some ''key'') sampleFeed) (sampleArbitrage (Some NaN)))
       = Inr \<lparr>data = [], remaining = Fin 0, warning = None\<rparr>"
proof -
  have len: "length (bestPrices ''h2h'' (quotedEvent 150 (- 120))) = 2" by (simp add: sample_bestPrices)
  obtain p1 p2 where p: "Fin 150 = Fin p1" "Fin (- 120) = Fin p2"
    and sm: "impliedSumOf (map (makeLeg (bestPrices ''h2h'' (quotedEvent 150 (- 120))))
                (objectKeys (bestPrices ''h2h'' (quotedEvent 150 (- 120)))))
       = jsAdd (impliedOr0 p1) (impliedOr0 p2)"
    using arbitrageOf_two [OF sample_bestPrices [of 150 "- 120"]] by (metis BestEntry.select_convs(2))
  have "p1 = 150" "p2 = - 120" using p by simp_all
  then have "arbitrageOf ''nba'' ''h2h'' (quotedEvent 150 (- 120)) \<noteq> None"
    using arbitrageOf_sum [OF len sm, of "''nba''"] by (simp add: sample_sums)
  then have ne: "List.map_filter (arbitrageOf ''nba'' ''h2h'') sampleFeed \<noteq> []"
    by (auto simp: sampleFeed_quoted List.map_filter_def)
  have lim: "arbitrageLimit (Some NaN) = NaN" by (simp add: arbitrageLimit_def mathMin_def mathMax_def)
  have n: "fst (getArbitrage sampleRuntime (sampleEnv (Some ''key'') sampleFeed) (sampleArbitrage (Some NaN)))
       = Inr \<lparr>data = [], remaining = Fin 0, warning = None\<rparr>"
    by (simp add: getArbitrage_def sampleArbitrage_def sample_getOdds_h2h Let_def truthyStr_def lim
        sliceTo_def)
  show ?thesis by (intro conjI ne n)
qed

text \<open>An outcome named \<open>__proto__\<close> is no leg: the event below has one own name and gives no opportunity.\<close>

lemma arbitrageOf_proto:
  "bestPrices ''h2h''
      (sampleEvent [sampleBookmaker ''dk'' [sampleOutcome ''__proto__'' 150, sampleOutcome ''Celtics'' (- 120)]])
     = [(''Celtics'', \<lparr>be_bookmaker = Some ''dk'', be_price = Fin (- 120)\<rparr>)]
   \<and> arbitrageOf ''nba'' ''h2h''
      (sampleEvent [sampleBookmaker ''dk'' [sampleOutcome ''__proto__'' 150, sampleOutcome ''Celtics'' (- 120)]])
     = None"
proof -
  have b: "bestPrices ''h2h''
      (sampleEvent [sampleBookmaker ''dk'' [sampleOutcome ''__proto__'' 150, sampleOutcome ''Celtics'' (- 120)]])
     = [(''Celtics'', \<lparr>be_bookmaker = Some ''dk'', be_price = Fin (- 120)\<rparr>)]"
    by (simp add: bestPrices_def sample_bookmakers bestOfBookmaker_def sampleBookmaker_def
      bestStep_def sampleOutcome_def orStr_def sample_trim Let_def)
  then show ?thesis by (simp add: arbitrageOf_not_two)
qed

section \<open>Analytics in degraded mode\<close>

text \<open>The two services hand the warning on: empty data, the warning, no error.\<close>

lemma getArbitrage_degraded:
  "a_market params = ''h2h'' \<Longrightarrow> getApikey env = [] \<Longrightarrow>
     getArbitrage rt env params =
       (Inr \<lparr>data = [], remaining = Fin 0, warning = Some notConfigured\<rparr>, [FeedCall ''getOdds''])"
  by (simp add: getArbitrage_def getOdds_def Let_def truthyStr_def notConfigured_def)

lemma getPlayerPropsCheatSheet_degraded:
  "getApikey env = [] \<Longrightarrow>
     getPlayerPropsCheatSheet rt env params =
       (Inr \<lparr>data = [], remaining = Fin 0, warning = Some notConfigured\<rparr>,
        [FeedCall (if startsWith (toLowerCase (c_market params)) ''player_'' then ''getEvents''
                   else ''getOdds'')])"
  by (simp add: getPlayerPropsCheatSheet_def getOdds_def getEvents_def Let_def truthyStr_def
      notConfigured_def)

text \<open>
  The positive-EV entry point reads only the data of the feed result. In degraded mode
  it answers with whatever the detection makes of no events: the warning is not part of
  the response.
\<close>

lemma getPositiveEV_degraded:
  "getApikey env = [] \<Longrightarrow>
     getPositiveEV rt env findPositiveEVBets query =
       (case findPositiveEVBets [] (orStr (qs_sport query) ''basketball_nba'') ''Unknown''
               (orStr (qs_region query) ''us'') of
          Inl e \<Rightarrow> Failure 500 (orStr (Some (err_message e)) ''Failed to compute positive EV bets'')
        | Inr bets \<Rightarrow>
            Success \<lparr>pev_sport_key = orStr (qs_sport query) ''basketball_nba'',
                     pev_sport_title = orStr (qs_sport query) ''basketball_nba'',
                     pev_sport_group = ''Unknown'',
                     pev_region = orStr (qs_region query) ''us'',
                     pev_count = length bets, pev_bets = bets\<rparr>,
        [FeedCall ''getSportByKey'', FeedCall ''getSports'', FeedCall ''getOdds''])"
proof -
  assume k: "getApikey env = []"
  have s: "getSportByKey rt env key = (None, [FeedCall ''getSportByKey'', FeedCall ''getSports''])" for key
    by (simp add: getSportByKey_def getSports_def k)
  have o: "getOdds rt env p
      = (Inr \<lparr>data = [], remaining = Fin 0, warning = Some notConfigured\<rparr>, [FeedCall ''getOdds''])" for p
    by (simp add: getOdds_def k)
  show ?thesis
    by (simp add: getPositiveEV_def Let_def s o orStr_def split: sum.splits)
qed

text \<open>
  Claim C9 at the positive-EV entry point, with no credential configured: the response
  is a success with no bets and without the warning, the same response as against a
  configured provider that has no events and reports no warning.
\<close>

theorem getPositiveEV_drops_warning:
  "fst (getOdds sampleRuntime (sampleEnv None [])
          \<lparr>p_sport = ''basketball_nba'', p_regions = Some [''us''],
           p_markets = Some [''h2h'', ''spreads'', ''totals''], p_oddsFormat = Some ''american''\<rparr>)
     = Inr \<lparr>data = [], remaining = Fin 0, warning = Some ''ODDS_API_KEY not configured''\<rparr>
   \<and> fst (getPositiveEV sampleRuntime (sampleEnv None []) sampleDetection sampleQuery)
       = Success \<lparr>pev_sport_key = ''basketball_nba'', pev_sport_title = ''basketball_nba'',
                  pev_sport_group = ''Unknown'', pev_region = ''us'', pev_count = 0, pev_bets = []\<rparr>
   \<and> fst (getPositiveEV sampleRuntime (sampleEnv (Some ''key'') []) sampleDetection sampleQuery)
       = Success \<lparr>pev_sport_key = ''basketball_nba'', pev_sport_title = ''basketball_nba'',
                  pev_sport_group = ''Unknown'', pev_region = ''us'', pev_count = 0, pev_bets = []\<rparr>"
proof -
  have a: "fst (getOdds sampleRuntime (sampleEnv None [])
          \<lparr>p_sport = ''basketball_nba'', p_regions = Some [''us''],
           p_markets = Some [''h2h'', ''spreads'', ''totals''], p_oddsFormat = Some ''american''\<rparr>)
     = Inr \<lparr>data = [], remaining = Fin 0, warning = Some ''ODDS_API_KEY not configured''\<rparr>"
    by (simp add: getOdds_def sample_degraded notConfigured_def)
  have b: "fst (getPositiveEV sampleRuntime (sampleEnv None []) sampleDetection sampleQuery)
       = Success \<lparr>pev_sport_key = ''basketball_nba'', pev_sport_title = ''basketball_nba'',
                  pev_sport_group = ''Unknown'', pev_region = ''us'', pev_count = 0, pev_bets = []\<rparr>"
    by (simp add: getPositiveEV_degraded [OF sample_degraded] sampleDetection_def sampleQuery_def
        orStr_def)
  have k: "getApikey (sampleEnv (Some ''key'') []) \<noteq> []" by (simp add: sample_configured)
  have up: "upstreamOdds (sampleEnv (Some ''key'') []) r
              = Inr \<lparr>resp_data = [], resp_requests_remaining = Some ''0''\<rparr>"
     "upstreamSports (sampleEnv (Some ''key'') []) r
              = Inr \<lparr>resp_data = [], resp_requests_remaining = Some ''0''\<rparr>" for r
    by (simp_all add: sampleEnv_def)
  have sp: "fst (getSportByKey sampleRuntime (sampleEnv (Some ''key'') []) key) = None" for key
    by (simp add: getSportByKey_def getSports_def k up Let_def)
  have st: "splitTrimmed ''us'' = [''us'']"
    "splitTrimmed ''h2h,spreads,totals'' = [''h2h'', ''spreads'', ''totals'']"
    by (simp_all add: splitTrimmed_def trim_def isSpaceChar_def)
  have nopp: "\<not> list_ex isPlayerPropMarket [''h2h'', ''spreads'', ''totals'']"
    by (simp add: isPlayerPropMarket_def startsWith_def toLowerCase_def toLowerChar_def)
  have od: "fst (getOdds sampleRuntime (sampleEnv (Some ''key'') [])
          \<lparr>p_sport = ''basketball_nba'', p_regions = Some [''us''],
           p_markets = Some [''h2h'', ''spreads'', ''totals''], p_oddsFormat = Some ''american''\<rparr>)
     = Inr \<lparr>data = [], remaining = Fin 0, warning = None\<rparr>"
    using nopp by (simp add: getOdds_def k up Let_def remainingOf_def sample_parseInt orStr_def)
  have c: "fst (getPositiveEV sampleRuntime (sampleEnv (Some ''key'') []) sampleDetection sampleQuery)
       = Success \<lparr>pev_sport_key = ''basketball_nba'', pev_sport_title = ''basketball_nba'',
                  pev_sport_group = ''Unknown'', pev_region = ''us'', pev_count = 0, pev_bets = []\<rparr>"
    using sp [of "''basketball_nba''"] od
    by (simp add: getPositiveEV_def Let_def sampleQuery_def sampleDetection_def orStr_def st
        case_prod_beta split: sum.splits prod.splits)
  show ?thesis by (intro conjI a b c)
qed

end
